theory Spec2Isabelle
  imports Complex_Main
begin

section \<open>The clock engine of \<open>public/js/app.js\<close>\<close>

text \<open>
  The script keeps two clocks: a wall clock (\<open>accumulatedMs\<close>, \<open>lastStartMs\<close>,
  \<open>running\<close>) and a tick clock (\<open>tickCount\<close>, \<open>tickAccumMs\<close>,
  \<open>lastTickUpdateMs\<close>) that advances at \<open>appliedFps\<close>. The file holds two
  variants of the script; the engine functions are the same in both, and the one
  embedded here is the second (without the moving-average display).

  Every number of the script is an IEEE 754 double, and the model computes with
  doubles: each arithmetic operation rounds its exact result to the nearest double,
  ties to even, overflows to an infinity and propagates \<open>NaN\<close>.
\<close>

subsection \<open>Doubles\<close>

text \<open>Rounding to the nearest integer, a tie going to the even one.\<close>

definition rne :: "real \<Rightarrow> int" where
  "rne x = (let n = \<lfloor>x\<rfloor>; f = x - of_int n
            in if f < 1 / 2 then n else if 1 / 2 < f then n + 1
               else if even n then n else n + 1)"

text \<open>The binary exponent of a number, held at \<open>-1022\<close> for the subnormal ones.\<close>

definition expo :: "real \<Rightarrow> int" where
  "expo x = (if x = 0 then - 1022 else max \<lfloor>log 2 \<bar>x\<bar>\<rfloor> (- 1022))"

text \<open>The nearest number with a mantissa of 53 bits at that exponent.\<close>

definition rnd :: "real \<Rightarrow> real" where
  "rnd x = (if x = 0 then 0
            else of_int (rne (x / 2 powi (expo x - 52))) * 2 powi (expo x - 52))"

definition is_double :: "real \<Rightarrow> bool" where
  "is_double x \<longleftrightarrow> rnd x = x \<and> \<bar>x\<bar> < 2 ^ 1024"

text \<open>The finite doubles. The two zeros of IEEE 754 are one value here: the script never
  divides by a number that can be \<open>-0\<close>, and nothing else in it tells them apart.\<close>

typedef double = "{x :: real. is_double x}"
  morphisms dval Abs_double
  by (rule exI[of _ 0]) (simp add: is_double_def rnd_def)

setup_lifting type_definition_double

instantiation double :: linorder
begin
lift_definition less_eq_double :: "double \<Rightarrow> double \<Rightarrow> bool" is "(\<le>)" .
lift_definition less_double :: "double \<Rightarrow> double \<Rightarrow> bool" is "(<)" .
instance by standard (transfer; auto)+
end

instantiation double :: zero
begin
lift_definition zero_double :: double is 0 by (simp add: is_double_def rnd_def)
instance ..
end

text \<open>The double with a given value (and zero for a value that no double has).\<close>

definition dbl :: "real \<Rightarrow> double" where
  "dbl x = Abs_double (if is_double x then x else 0)"

subsection \<open>JavaScript numbers\<close>

datatype jsnum = Fin double | PosInf | NegInf | NaN

instantiation jsnum :: zero
begin
definition zero_jsnum :: jsnum where "zero_jsnum = Fin 0"
instance ..
end

abbreviation num :: "real \<Rightarrow> jsnum" where
  "num x \<equiv> Fin (dbl x)"

text \<open>The double that an exact result becomes.\<close>

definition fl :: "real \<Rightarrow> jsnum" where
  "fl x = (if \<bar>rnd x\<bar> < 2 ^ 1024 then Fin (dbl (rnd x))
           else if 0 < x then PosInf else NegInf)"

fun js_add :: "jsnum \<Rightarrow> jsnum \<Rightarrow> jsnum" where
  "js_add (Fin a) (Fin b) = fl (dval a + dval b)"
| "js_add NaN y = NaN"
| "js_add x NaN = NaN"
| "js_add PosInf NegInf = NaN"
| "js_add NegInf PosInf = NaN"
| "js_add PosInf y = PosInf"
| "js_add x PosInf = PosInf"
| "js_add NegInf y = NegInf"
| "js_add x NegInf = NegInf"

fun js_sub :: "jsnum \<Rightarrow> jsnum \<Rightarrow> jsnum" where
  "js_sub (Fin a) (Fin b) = fl (dval a - dval b)"
| "js_sub NaN y = NaN"
| "js_sub x NaN = NaN"
| "js_sub PosInf PosInf = NaN"
| "js_sub NegInf NegInf = NaN"
| "js_sub PosInf y = PosInf"
| "js_sub x NegInf = PosInf"
| "js_sub NegInf y = NegInf"
| "js_sub x PosInf = NegInf"

fun js_mul :: "jsnum \<Rightarrow> jsnum \<Rightarrow> jsnum" where
  "js_mul (Fin a) (Fin b) = fl (dval a * dval b)"
| "js_mul NaN y = NaN"
| "js_mul x NaN = NaN"
| "js_mul (Fin a) PosInf = (if a = 0 then NaN else if 0 < a then PosInf else NegInf)"
| "js_mul (Fin a) NegInf = (if a = 0 then NaN else if 0 < a then NegInf else PosInf)"
| "js_mul PosInf (Fin b) = (if b = 0 then NaN else if 0 < b then PosInf else NegInf)"
| "js_mul NegInf (Fin b) = (if b = 0 then NaN else if 0 < b then NegInf else PosInf)"
| "js_mul PosInf PosInf = PosInf"
| "js_mul NegInf NegInf = PosInf"
| "js_mul PosInf NegInf = NegInf"
| "js_mul NegInf PosInf = NegInf"

fun js_div :: "jsnum \<Rightarrow> jsnum \<Rightarrow> jsnum" where
  "js_div (Fin a) (Fin b) =
     (if b = 0 then (if a = 0 then NaN else if 0 < a then PosInf else NegInf)
      else fl (dval a / dval b))"
| "js_div NaN y = NaN"
| "js_div x NaN = NaN"
| "js_div (Fin a) PosInf = 0"
| "js_div (Fin a) NegInf = 0"
| "js_div PosInf (Fin b) = (if 0 \<le> b then PosInf else NegInf)"
| "js_div NegInf (Fin b) = (if 0 \<le> b then NegInf else PosInf)"
| "js_div PosInf y = NaN"
| "js_div NegInf y = NaN"

text \<open>\<open>x <= y\<close> and \<open>x < y\<close>: false as soon as one side is \<open>NaN\<close>.\<close>

fun js_le :: "jsnum \<Rightarrow> jsnum \<Rightarrow> bool" where
  "js_le (Fin a) (Fin b) = (a \<le> b)"
| "js_le NaN y = False"
| "js_le x NaN = False"
| "js_le NegInf y = True"
| "js_le x PosInf = True"
| "js_le PosInf y = False"
| "js_le x NegInf = False"

fun js_lt :: "jsnum \<Rightarrow> jsnum \<Rightarrow> bool" where
  "js_lt (Fin a) (Fin b) = (a < b)"
| "js_lt NaN y = False"
| "js_lt x NaN = False"
| "js_lt PosInf y = False"
| "js_lt x NegInf = False"
| "js_lt NegInf y = True"
| "js_lt x PosInf = True"

text \<open>\<open>x === y\<close> on numbers: \<open>NaN\<close> equals nothing, itself included; \<open>x !== y\<close>
  is the negation.\<close>

definition js_eq :: "jsnum \<Rightarrow> jsnum \<Rightarrow> bool" where
  "js_eq x y \<longleftrightarrow> x \<noteq> NaN \<and> y \<noteq> NaN \<and> x = y"

definition js_ne :: "jsnum \<Rightarrow> jsnum \<Rightarrow> bool" where
  "js_ne x y \<longleftrightarrow> \<not> js_eq x y"

text \<open>\<open>Math.max\<close> and \<open>Math.min\<close> of two numbers: \<open>NaN\<close> when either is.\<close>

definition js_max :: "jsnum \<Rightarrow> jsnum \<Rightarrow> jsnum" where
  "js_max x y = (if x = NaN \<or> y = NaN then NaN else if js_le x y then y else x)"

definition js_min :: "jsnum \<Rightarrow> jsnum \<Rightarrow> jsnum" where
  "js_min x y = (if x = NaN \<or> y = NaN then NaN else if js_le x y then x else y)"

text \<open>\<open>Math.floor\<close>, and \<open>Math.round\<close>: the nearest integer, a tie going up. Both
  results are doubles already.\<close>

fun Math_floor :: "jsnum \<Rightarrow> jsnum" where
  "Math_floor (Fin a) = fl (of_int \<lfloor>dval a\<rfloor>)"
| "Math_floor x = x"

fun Math_round :: "jsnum \<Rightarrow> jsnum" where
  "Math_round (Fin a) = fl (of_int \<lfloor>dval a + 1 / 2\<rfloor>)"
| "Math_round x = x"

text \<open>\<open>Number.isFinite(v)\<close>, giving the finite value when there is one.\<close>

fun isFinite :: "jsnum \<Rightarrow> double option" where
  "isFinite (Fin r) = Some r"
| "isFinite PosInf = None"
| "isFinite NegInf = None"
| "isFinite NaN = None"

text \<open>\<open>clamp(v, min, max) = Math.max(min, Math.min(max, v))\<close>.\<close>

definition clamp :: "jsnum \<Rightarrow> jsnum \<Rightarrow> jsnum \<Rightarrow> jsnum" where
  "clamp v lo hi = js_max lo (js_min hi v)"

definition DEFAULT_FPS :: double where
  "DEFAULT_FPS = dbl 60"

subsection \<open>The player and the page\<close>

text \<open>
  The YouTube player is outside the script. A method of it may be missing, may throw, or
  may return; \<open>player = null\<close> is \<open>None\<close>. What a query returns is taken after
  \<open>Number(...)\<close>. Of the page, only the presence of the \<open>calculatedTime\<close> element
  matters to the state.
\<close>

datatype 'a attempt = Missing | Throws | Returns 'a

record player =
  getCurrentTime :: "jsnum attempt"
  getDuration :: "jsnum attempt"
  seekTo :: "unit attempt"
  playVideo :: "unit attempt"
  pauseVideo :: "unit attempt"

record env =
  player :: "player option"
  calcEl :: bool

datatype player_call = GetCurrentTime | GetDuration | SeekTo jsnum bool

text \<open>The calls \<open>if (player && player.playVideo) player.playVideo()\<close> are not inside a
  \<open>try\<close>: when the method throws, the rest of the handler does not run.\<close>

definition throws :: "env \<Rightarrow> (player \<Rightarrow> unit attempt) \<Rightarrow> bool" where
  "throws e m = (case player e of None \<Rightarrow> False | Some p \<Rightarrow> m p = Throws)"

subsection \<open>The state\<close>

text \<open>The module-level variables. \<open>lastStartMs\<close> and \<open>lastTickUpdateMs\<close> only ever hold
  \<open>0\<close> or a value of \<open>performance.now()\<close>, and \<open>appliedFps\<close> only the default, the
  page's initial value (taken finite) or a rate that passed \<open>Number.isFinite\<close>: these
  are finite doubles. The other numbers can become infinite or \<open>NaN\<close>.
  \<open>lastTickUpdateMs = 0\<close> is the script's "no baseline" (\<open>if (!lastTickUpdateMs)\<close>).
  \<open>rafId\<close> only schedules the next frame and is left out.\<close>

record clock_state =
  accumulatedMs :: jsnum
  lastStartMs :: double
  running :: bool
  appliedFps :: double
  lastShownTick :: jsnum
  tickCount :: jsnum
  tickAccumMs :: jsnum
  lastTickUpdateMs :: double

definition module_state :: clock_state where
  "module_state = \<lparr>accumulatedMs = 0, lastStartMs = 0, running = False,
     appliedFps = DEFAULT_FPS, lastShownTick = num (- 1), tickCount = 0, tickAccumMs = 0,
     lastTickUpdateMs = 0\<rparr>"

text \<open>\<open>elapsed = accumulatedMs + (running ? (now - lastStartMs) : 0)\<close>.\<close>

definition elapsed :: "clock_state \<Rightarrow> double \<Rightarrow> jsnum" where
  "elapsed s now =
     js_add (accumulatedMs s)
       (if running s then js_sub (Fin now) (Fin (lastStartMs s)) else 0)"

subsection \<open>updateUi: one frame\<close>

text \<open>Every \<open>performance.now()\<close> of the source is a parameter of the model, in the order
  the reads happen. A handler that reads the clock several times gets one parameter for
  each read; where a property speaks of the one instant \<open>now\<close> of an operation, all
  its reads are given that value.\<close>

definition updateUi :: "env \<Rightarrow> double \<Rightarrow> clock_state \<Rightarrow> clock_state" where
  "updateUi e now s =
     (let s1 =
        (if running s then
           (let s' = (if lastTickUpdateMs s = 0 then s\<lparr>lastTickUpdateMs := now\<rparr> else s);
                delta = js_sub (Fin now) (Fin (lastTickUpdateMs s'));
                s'' = s'\<lparr>lastTickUpdateMs := now,
                         tickAccumMs := js_add (tickAccumMs s') delta\<rparr>;
                msPerTick = js_div (num 1000) (js_max (num 1) (Fin (appliedFps s'')))
            in if js_le msPerTick (tickAccumMs s'') then
                 (let newTicks = Math_floor (js_div (tickAccumMs s'') msPerTick)
                  in s''\<lparr>tickCount := js_add (tickCount s'') newTicks,
                         tickAccumMs := js_sub (tickAccumMs s'') (js_mul newTicks msPerTick)\<rparr>)
               else s'')
         else s\<lparr>lastTickUpdateMs := 0\<rparr>)
      in if calcEl e \<and> js_ne (tickCount s1) (lastShownTick s1)
         then s1\<lparr>lastShownTick := tickCount s1\<rparr> else s1)"

subsection \<open>play, stop, reset\<close>

definition play :: "env \<Rightarrow> double \<Rightarrow> double \<Rightarrow> double \<Rightarrow> clock_state \<Rightarrow> clock_state" where
  "play e t1 t2 t3 s =
     (let s1 = (if \<not> running s
                then s\<lparr>lastStartMs := t1, lastTickUpdateMs := t2, running := True\<rparr>
                else s)
      in if throws e playVideo then s1 else updateUi e t3 s1)"

definition stop :: "env \<Rightarrow> double \<Rightarrow> double \<Rightarrow> clock_state \<Rightarrow> clock_state" where
  "stop e t1 t2 s =
     (let s1 = (if running s
                then s\<lparr>accumulatedMs :=
                         js_add (accumulatedMs s) (js_sub (Fin t1) (Fin (lastStartMs s))),
                       running := False\<rparr>
                else s)
      in if throws e pauseVideo then s1 else updateUi e t2 s1)"

definition reset :: "env \<Rightarrow> double \<Rightarrow> double \<Rightarrow> double \<Rightarrow> clock_state \<Rightarrow> clock_state" where
  "reset e t1 t2 t3 s =
     (let s1 = s\<lparr>accumulatedMs := 0, lastStartMs := t1, running := True,
                  tickCount := 0, tickAccumMs := 0, lastTickUpdateMs := t2,
                  lastShownTick := num (- 1)\<rparr>
      in if throws e playVideo then s1 else updateUi e t3 s1)"

subsection \<open>commitAppliedFps\<close>

text \<open>\<open>fpsInput\<close> is \<open>None\<close> when the page has no input element, and otherwise
  \<open>Number(fpsInput.value)\<close>. The result is the returned flag and the state.\<close>

definition commitAppliedFps ::
  "env \<Rightarrow> jsnum option \<Rightarrow> double \<Rightarrow> double \<Rightarrow> clock_state \<Rightarrow> bool \<times> clock_state" where
  "commitAppliedFps e fpsInput t1 t2 s =
     (case fpsInput of
        None \<Rightarrow> (False, s)
      | Some raw \<Rightarrow>
          (case isFinite raw of
             None \<Rightarrow> (False, s)
           | Some v \<Rightarrow>
               if \<not> v > 0 then (False, s)
               else (True, updateUi e t2
                       (s\<lparr>appliedFps := v, tickAccumMs := 0,
                          lastTickUpdateMs := (if running s then t1 else 0),
                          lastShownTick := num (- 1)\<rparr>))))"

subsection \<open>skipBy\<close>

text \<open>The position to seek from: the player's, or the wall clock's when the player is
  missing, throws or answers with a non-finite number.\<close>

definition currentSec :: "env \<Rightarrow> jsnum \<Rightarrow> jsnum" where
  "currentSec e wallCurrentSec =
     (case player e of
        None \<Rightarrow> wallCurrentSec
      | Some p \<Rightarrow>
          (case getCurrentTime p of
             Returns r \<Rightarrow> (case isFinite r of Some x \<Rightarrow> Fin x | None \<Rightarrow> wallCurrentSec)
           | _ \<Rightarrow> wallCurrentSec))"

text \<open>The duration: the player's when it is finite and positive, \<open>Infinity\<close>
  otherwise.\<close>

definition durationSecOf :: "env \<Rightarrow> jsnum" where
  "durationSecOf e =
     (case player e of
        None \<Rightarrow> PosInf
      | Some p \<Rightarrow>
          (case getDuration p of
             Returns r \<Rightarrow>
               (case isFinite r of
                  Some d \<Rightarrow> if 0 < d then Fin d else PosInf
                | None \<Rightarrow> PosInf)
           | _ \<Rightarrow> PosInf))"

definition queries :: "env \<Rightarrow> player_call list" where
  "queries e =
     (case player e of
        None \<Rightarrow> []
      | Some p \<Rightarrow>
          (if getCurrentTime p = Missing then [] else [GetCurrentTime]) @
          (if getDuration p = Missing then [] else [GetDuration]))"

definition seeks :: "env \<Rightarrow> jsnum \<Rightarrow> player_call list" where
  "seeks e target =
     (case player e of
        None \<Rightarrow> []
      | Some p \<Rightarrow> if seekTo p = Missing then [] else [SeekTo target True])"

definition skipBy ::
  "env \<Rightarrow> jsnum \<Rightarrow> string \<Rightarrow> int \<Rightarrow> double \<Rightarrow> double \<Rightarrow> double \<Rightarrow> double \<Rightarrow> clock_state
     \<Rightarrow> clock_state \<times> player_call list" where
  "skipBy e amount unit direction t1 t2 t3 t4 s =
     (case isFinite amount of
        None \<Rightarrow> (s, [])
      | Some numeric \<Rightarrow>
          if numeric < 0 \<or> (direction \<noteq> - 1 \<and> direction \<noteq> 1) then (s, [])
          else
            (let requestedSec =
                   (if unit = ''ticks''
                    then js_div (Fin numeric) (js_max (num 1) (Fin DEFAULT_FPS))
                    else Fin numeric);
                 deltaSec = js_mul (num (of_int direction)) requestedSec;
                 wallCurrentSec = js_div (elapsed s t1) (num 1000);
                 playerCurrentSec = currentSec e wallCurrentSec;
                 durationSec = durationSecOf e;
                 targetPlayerSec = clamp (js_add playerCurrentSec deltaSec) 0 durationSec;
                 actualJumpedSec = js_sub targetPlayerSec playerCurrentSec;
                 s1 = (if unit = ''ticks'' then
                         (let actualTicks =
                                Math_round (js_mul actualJumpedSec (Fin DEFAULT_FPS))
                          in if js_ne actualTicks 0
                             then s\<lparr>tickCount := js_max 0 (js_add (tickCount s) actualTicks),
                                    lastShownTick := num (- 1)\<rparr>
                             else s)
                       else
                         (let deltaTicks =
                                Math_round (js_mul actualJumpedSec (Fin (appliedFps s)))
                          in if js_ne deltaTicks 0
                             then s\<lparr>tickCount := js_max 0 (js_add (tickCount s) deltaTicks),
                                    lastShownTick := num (- 1)\<rparr>
                             else s));
                 now = t2;
                 durationMs = (case isFinite durationSec of
                                 Some d \<Rightarrow> js_mul durationSec (num 1000)
                               | None \<Rightarrow> PosInf);
                 jumpMs = js_mul actualJumpedSec (num 1000);
                 s2 = (if running s1 then
                         (let maxAccum =
                                js_max 0 (js_sub durationMs
                                            (js_sub (Fin now) (Fin (lastStartMs s1))))
                          in s1\<lparr>accumulatedMs :=
                                  clamp (js_add (accumulatedMs s1) jumpMs) 0 maxAccum,
                                lastTickUpdateMs := t3\<rparr>)
                       else
                         s1\<lparr>accumulatedMs :=
                              clamp (js_add (accumulatedMs s1) jumpMs) 0 durationMs,
                            lastTickUpdateMs := 0\<rparr>)
             in (updateUi e t4 s2, queries e @ seeks e targetPlayerSec)))"

subsection \<open>Page load\<close>

text \<open>The \<open>DOMContentLoaded\<close> handler. \<open>fps0\<close> is
  \<open>Number(fpsInput.value) || DEFAULT_FPS\<close>, and \<open>None\<close> when the page has no input
  element. The markup that gives the input its first value is not part of the script; the
  value is taken to be one that makes this number finite, so that \<open>appliedFps\<close> is a
  finite double from the start (it may be negative or below 1: \<open>updateUi\<close> and
  \<open>commitAppliedFps\<close> deal with that).\<close>

definition domContentLoaded ::
  "env \<Rightarrow> double option \<Rightarrow> double \<Rightarrow> clock_state \<Rightarrow> clock_state" where
  "domContentLoaded e fps0 now s =
     (let s1 = (case fps0 of None \<Rightarrow> s | Some v \<Rightarrow> s\<lparr>appliedFps := v\<rparr>)
      in updateUi e now (s1\<lparr>tickCount := 0, tickAccumMs := 0, lastTickUpdateMs := 0\<rparr>))"

subsection \<open>Sessions\<close>

text \<open>What happens to the state after the page has loaded: an animation frame
  (\<open>tick\<close> calls \<open>updateUi\<close>) or one of the handlers, each with the clock values it
  reads. The clock is \<open>performance.now()\<close>: it starts at the page's time origin and
  never goes back.\<close>

datatype event =
    Frame env double
  | Play env double double double
  | Stop env double double
  | Reset env double double double
  | Apply env "jsnum option" double double
  | Skip env jsnum string int double double double double

fun exec :: "event \<Rightarrow> clock_state \<Rightarrow> clock_state" where
  "exec (Frame e now) s = updateUi e now s"
| "exec (Play e t1 t2 t3) s = play e t1 t2 t3 s"
| "exec (Stop e t1 t2) s = stop e t1 t2 s"
| "exec (Reset e t1 t2 t3) s = reset e t1 t2 t3 s"
| "exec (Apply e fpsInput t1 t2) s = snd (commitAppliedFps e fpsInput t1 t2 s)"
| "exec (Skip e amount unit direction t1 t2 t3 t4) s =
     fst (skipBy e amount unit direction t1 t2 t3 t4 s)"

fun reads :: "event \<Rightarrow> double list" where
  "reads (Frame e now) = [now]"
| "reads (Play e t1 t2 t3) = [t1, t2, t3]"
| "reads (Stop e t1 t2) = [t1, t2]"
| "reads (Reset e t1 t2 t3) = [t1, t2, t3]"
| "reads (Apply e fpsInput t1 t2) = [t1, t2]"
| "reads (Skip e amount unit direction t1 t2 t3 t4) = [t1, t2, t3, t4]"

text \<open>\<open>reachable t s\<close>: the session can be in state \<open>s\<close> when the clock last read
  \<open>t\<close>.\<close>

inductive reachable :: "double \<Rightarrow> clock_state \<Rightarrow> bool" where
  loaded: "0 \<le> now \<Longrightarrow> reachable now (domContentLoaded e fps0 now module_state)"
| step: "reachable t s \<Longrightarrow> sorted (t # reads ev) \<Longrightarrow>
         reachable (last (t # reads ev)) (exec ev s)"

subsection \<open>Pages and sessions used in the examples\<close>

text \<open>A page whose player has not loaded, and a page whose player shows a video of ten
  seconds at position \<open>p\<close>.\<close>

definition no_player :: env where
  "no_player = \<lparr>player = None, calcEl = True\<rparr>"

definition video10 :: "real \<Rightarrow> env" where
  "video10 p = \<lparr>player = Some \<lparr>getCurrentTime = Returns (num p),
       getDuration = Returns (num 10), seekTo = Returns (), playVideo = Returns (),
       pauseVideo = Returns ()\<rparr>, calcEl = True\<rparr>"

text \<open>The page right after it has loaded, at the default rate of 60; then \<open>play()\<close> when
  the clock reads 1000 ms; then one frame at 2650 ms.\<close>

definition loaded60 :: clock_state where
  "loaded60 = domContentLoaded no_player None 0 module_state"

definition played60 :: clock_state where
  "played60 = exec (Play no_player (dbl 1000) (dbl 1000) (dbl 1000)) loaded60"

definition session1650 :: clock_state where
  "session1650 = exec (Frame no_player (dbl 2650)) played60"

text \<open>A rate of 51 applied at 500 ms, \<open>play()\<close> at 1000 ms and one frame at 18000 ms; then
  \<open>skipBy(1, 'seconds', +1)\<close> at the instant of that frame.\<close>

definition applied51 :: clock_state where
  "applied51 = exec (Apply no_player (Some (num 51)) (dbl 500) (dbl 500)) loaded60"

definition played51 :: clock_state where
  "played51 = exec (Play no_player (dbl 1000) (dbl 1000) (dbl 1000)) applied51"

definition session51 :: clock_state where
  "session51 = exec (Frame no_player (dbl 18000)) played51"

definition skipped51 :: clock_state where
  "skipped51 = exec (Skip no_player (num 1) ''seconds'' 1
                       (dbl 18000) (dbl 18000) (dbl 18000) (dbl 18000)) session51"

text \<open>The ten-second video played from 1000 ms: a frame nine seconds later, and a frame
  twenty seconds later, ten seconds after the video has ended.\<close>

definition played_video :: clock_state where
  "played_video = exec (Play (video10 0) (dbl 1000) (dbl 1000) (dbl 1000)) loaded60"

definition session9 :: clock_state where
  "session9 = exec (Frame (video10 9) (dbl 10000)) played_video"

definition session20 :: clock_state where
  "session20 = exec (Frame (video10 10) (dbl 21000)) played_video"

text \<open>A skip forward by \<open>2^1023\<close> seconds (about \<open>8.99e307\<close>) on the loaded page, and
  then a skip back by one second.\<close>

definition huge :: double where
  "huge = dbl (2 ^ 1023)"

definition overflowed :: clock_state where
  "overflowed = exec (Skip no_player (Fin huge) ''seconds'' 1
                        (dbl 500) (dbl 500) (dbl 500) (dbl 500)) loaded60"

definition lost :: clock_state where
  "lost = exec (Skip no_player (num 1) ''seconds'' (- 1)
                  (dbl 500) (dbl 500) (dbl 500) (dbl 500)) overflowed"

text \<open>An operation zeroes both clocks when, whatever the state before, the tick count and
  the banked wall time are zero after it.\<close>

definition zeroes_both :: "(clock_state \<Rightarrow> clock_state) \<Rightarrow> bool" where
  "zeroes_both f \<longleftrightarrow> (\<forall>s. tickCount (f s) = 0 \<and> accumulatedMs (f s) = 0)"

section \<open>Properties\<close>
subsection \<open>Rounding\<close>
lemma floor_log2_iff:
  assumes "0 < a"
  shows "\<lfloor>log 2 a\<rfloor> = k \<longleftrightarrow> 2 powi k \<le> a \<and> a < 2 powi (k + 1)"
proof -
  have "2 powr real_of_int k = (2::real) powi k" "2 powr real_of_int (k + 1) = (2::real) powi (k + 1)"
    by (simp_all only: powr_real_of_int' zero_le_numeral numeral_neq_zero simp_thms)
  then show ?thesis
    using floor_log_eq_powr_iff[OF assms, of 2 k] by simp
qed
lemma floor_log2_bounds:
  assumes "0 < a"
  shows "2 powi \<lfloor>log 2 a\<rfloor> \<le> a" and "a < 2 powi (\<lfloor>log 2 a\<rfloor> + 1)"
  using floor_log2_iff[OF assms, of "\<lfloor>log 2 a\<rfloor>"] by simp_all
lemma expo_eq:
  assumes "2 powi e \<le> \<bar>x\<bar>" and "\<bar>x\<bar> < 2 powi (e + 1)" and "- 1022 \<le> e"
  shows "expo x = e"
proof -
  have "(0::real) < 2 powi e" by simp
  then have p: "0 < \<bar>x\<bar>" using assms(1) by linarith
  then have "\<lfloor>log 2 \<bar>x\<bar>\<rfloor> = e" using assms by (simp add: floor_log2_iff)
  then show ?thesis using assms(3) p by (simp add: expo_def)
qed
lemma expo_ge: "- 1022 \<le> expo x"
  by (simp add: expo_def)
lemma expo_upper:
  assumes "x \<noteq> 0"
  shows "\<bar>x\<bar> < 2 powi (expo x + 1)"
proof -
  have p: "0 < \<bar>x\<bar>" using assms by simp
  have "(2::real) powi (\<lfloor>log 2 \<bar>x\<bar>\<rfloor> + 1) \<le> 2 powi (expo x + 1)"
    using assms by (intro power_int_increasing) (simp_all add: expo_def)
  with floor_log2_bounds(2)[OF p] show ?thesis by linarith
qed
lemma expo_le_iff:
  assumes "x \<noteq> 0" and "- 1022 \<le> k"
  shows "expo x \<le> k \<longleftrightarrow> \<bar>x\<bar> < 2 powi (k + 1)"
proof
  assume "expo x \<le> k"
  then have "(2::real) powi (expo x + 1) \<le> 2 powi (k + 1)"
    by (intro power_int_increasing) simp_all
  with expo_upper[OF assms(1)] show "\<bar>x\<bar> < 2 powi (k + 1)" by linarith
next
  assume a: "\<bar>x\<bar> < 2 powi (k + 1)"
  have p: "0 < \<bar>x\<bar>" using assms by simp
  have "\<lfloor>log 2 \<bar>x\<bar>\<rfloor> \<le> k"
  proof (rule ccontr)
    assume "\<not> \<lfloor>log 2 \<bar>x\<bar>\<rfloor> \<le> k"
    then have "(2::real) powi (k + 1) \<le> 2 powi \<lfloor>log 2 \<bar>x\<bar>\<rfloor>"
      by (intro power_int_increasing) simp_all
    with floor_log2_bounds(1)[OF p] a show False by linarith
  qed
  then show "expo x \<le> k" using assms by (simp add: expo_def)
qed
lemma expo_lower:
  assumes "2 powi (- 1022) \<le> \<bar>x\<bar>"
  shows "2 powi expo x \<le> \<bar>x\<bar>"
proof -
  have "(0::real) < 2 powi (- 1022)" by simp
  then have p: "0 < \<bar>x\<bar>" using assms by linarith
  define l where "l = \<lfloor>log 2 \<bar>x\<bar>\<rfloor>"
  have "- 1022 \<le> l"
  proof (rule ccontr)
    assume "\<not> - 1022 \<le> l"
    then have "l + 1 \<le> - 1022" by simp
    then have "(2::real) powi (l + 1) \<le> 2 powi (- 1022)"
      by (intro power_int_increasing) simp_all
    with floor_log2_bounds(2)[OF p] assms show False unfolding l_def by linarith
  qed
  then have "expo x = l" using p by (simp add: expo_def l_def)
  with floor_log2_bounds(1)[OF p] show ?thesis by (simp add: l_def)
qed
lemma rne_of_int [simp]: "rne (of_int k) = k"
  by (simp add: rne_def)
lemma rne_nonneg: "0 \<le> x \<Longrightarrow> 0 \<le> rne x"
  unfolding rne_def Let_def by (auto; linarith)
lemma rne_nonpos: "x \<le> 0 \<Longrightarrow> rne x \<le> 0"
  unfolding rne_def Let_def by (auto; linarith)
lemma rne_ge_int: "of_int k \<le> x \<Longrightarrow> k \<le> rne x"
  unfolding rne_def Let_def by (auto simp: le_floor_iff; linarith)
lemma rne_le_int:
  assumes "x \<le> of_int k"
  shows "rne x \<le> k"
proof (cases "x = of_int k")
  case True
  then show ?thesis by simp
next
  case False
  then have "x < of_int k" using assms by simp
  then have "\<lfloor>x\<rfloor> < k" by (simp add: floor_less_iff)
  then have "\<lfloor>x\<rfloor> + 1 \<le> k" by simp
  moreover have "rne x \<le> \<lfloor>x\<rfloor> + 1" by (simp add: rne_def Let_def)
  ultimately show ?thesis by linarith
qed
text \<open>A multiple of a power of two with a mantissa below \<open>2 ^ 53\<close> is on the grid.\<close>
lemma rnd_grid:
  assumes "\<bar>k\<bar> < 2 ^ 53" and "- 1074 \<le> j"
  shows "rnd (of_int k * 2 powi j) = of_int k * 2 powi j"
proof (cases "k = 0")
  case True
  then show ?thesis by (simp add: rnd_def)
next
  case False
  define x :: real where "x = of_int k * 2 powi j"
  have x0: "x \<noteq> 0" using False by (simp add: x_def)
  have "\<bar>x\<bar> = of_int \<bar>k\<bar> * 2 powi j" by (simp add: x_def abs_mult)
  also have "\<dots> < 2 ^ 53 * 2 powi j"
  proof -
    have "real_of_int \<bar>k\<bar> < 2 ^ 53"
      using assms(1) by (metis of_int_less_iff of_int_numeral of_int_power)
    then show ?thesis by (intro mult_strict_right_mono) simp_all
  qed
  also have "\<dots> = 2 powi (j + 53)" by (simp add: power_int_add)
  finally have ub: "\<bar>x\<bar> < 2 powi (j + 53)" .
  have "(2::real) powi (j + 53) \<le> 2 powi (max (j + 52) (- 1022) + 1)"
    by (intro power_int_increasing) simp_all
  with ub have "\<bar>x\<bar> < 2 powi (max (j + 52) (- 1022) + 1)" by linarith
  then have e_le: "expo x \<le> max (j + 52) (- 1022)"
    using expo_le_iff[OF x0, of "max (j + 52) (- 1022)"] by simp
  define d where "d = j - (expo x - 52)"
  have d: "0 \<le> d" using e_le assms(2) by (simp add: d_def)
  have "x / 2 powi (expo x - 52) = of_int k * 2 powi d"
    by (simp add: x_def d_def power_int_diff)
  also have "\<dots> = of_int (k * 2 ^ nat d)" using d by (simp add: power_int_def)
  finally have "rne (x / 2 powi (expo x - 52)) = k * 2 ^ nat d" by (simp only: rne_of_int)
  then have "rnd x = of_int (k * 2 ^ nat d) * 2 powi (expo x - 52)"
    using x0 by (simp add: rnd_def)
  also have "\<dots> = of_int k * (2 powi d * 2 powi (expo x - 52))"
    using d by (simp add: power_int_def)
  also have "\<dots> = of_int k * 2 powi j"
    by (simp add: d_def flip: power_int_add)
  finally show ?thesis by (simp add: x_def)
qed
lemma rne_abs_bound:
  assumes "\<bar>z\<bar> < 2 ^ 53"
  shows "\<bar>rne z\<bar> \<le> 2 ^ 53"
proof -
  have "rne z \<le> 2 ^ 53" using assms by (intro rne_le_int) simp
  moreover have "- (2 ^ 53) \<le> rne z" using assms by (intro rne_ge_int) simp
  ultimately show ?thesis by simp
qed
lemma rnd_form:
  assumes "x \<noteq> 0"
  shows "\<bar>rne (x / 2 powi (expo x - 52))\<bar> \<le> 2 ^ 53"
proof -
  have "\<bar>x / 2 powi (expo x - 52)\<bar> = \<bar>x\<bar> / 2 powi (expo x - 52)" by simp
  also have "\<dots> < 2 powi (expo x + 1) / 2 powi (expo x - 52)"
    using expo_upper[OF assms] by (intro divide_strict_right_mono) simp_all
  also have "\<dots> = 2 ^ 53" by (simp flip: power_int_diff)
  finally show ?thesis by (rule rne_abs_bound)
qed
lemma rnd_idem: "rnd (rnd x) = rnd x"
proof (cases "x = 0")
  case True
  then show ?thesis by (simp add: rnd_def)
next
  case False
  define n where "n = rne (x / 2 powi (expo x - 52))"
  define p where "p = expo x - 52"
  have r: "rnd x = of_int n * 2 powi p" using False by (simp add: rnd_def n_def p_def)
  have p: "- 1074 \<le> p" using expo_ge[of x] by (simp add: p_def)
  have n: "\<bar>n\<bar> \<le> 2 ^ 53" using rnd_form[OF False] by (simp add: n_def)
  show ?thesis
  proof (cases "\<bar>n\<bar> < 2 ^ 53")
    case True
    then show ?thesis unfolding r using p by (rule rnd_grid)
  next
    case False
    then have c: "n = 2 ^ 53 \<or> n = - (2 ^ 53)" using n by linarith
    then have "of_int n * 2 powi p = (of_int (n div 2) :: real) * 2 powi (p + 1)"
      by (auto simp: power_int_add)
    moreover have "\<bar>n div 2\<bar> < 2 ^ 53" using c by auto
    moreover have "- 1074 \<le> p + 1" using p by simp
    ultimately show ?thesis unfolding r by (simp add: rnd_grid)
  qed
qed
lemma rnd_0 [simp]: "rnd 0 = 0"
  by (simp add: rnd_def)
lemma rnd_nonneg: "0 \<le> x \<Longrightarrow> 0 \<le> rnd x"
  by (simp add: rnd_def rne_nonneg)
lemma rnd_nonpos: "x \<le> 0 \<Longrightarrow> rnd x \<le> 0"
  by (simp add: rnd_def rne_nonpos mult_nonpos_nonneg divide_nonpos_pos)
text \<open>A value in the normal range keeps its leading bit when it is rounded.\<close>
lemma rnd_normal_ge:
  assumes "2 powi (- 1022) \<le> x"
  shows "2 powi expo x \<le> rnd x"
proof -
  have "(0::real) < 2 powi (- 1022)" by simp
  then have x: "0 < x" using assms by linarith
  have "2 powi expo x \<le> x" using expo_lower[of x] assms x by simp
  then have "2 powi 52 \<le> x / 2 powi (expo x - 52)"
    by (simp add: power_int_diff field_simps)
  then have "real_of_int (2 ^ 52) \<le> x / 2 powi (expo x - 52)" by simp
  then have "2 ^ 52 \<le> rne (x / 2 powi (expo x - 52))" by (rule rne_ge_int)
  then have "(2 ^ 52 :: real) \<le> of_int (rne (x / 2 powi (expo x - 52)))"
    by (metis of_int_le_iff of_int_numeral of_int_power)
  then have "2 ^ 52 * 2 powi (expo x - 52) \<le> rnd x"
    using x by (simp add: rnd_def)
  moreover have "(2::real) ^ 52 * 2 powi (expo x - 52) = 2 powi expo x"
    by (simp add: power_int_diff)
  ultimately show ?thesis by linarith
qed
lemma rnd_normal_pos:
  assumes "2 powi (- 1022) \<le> x"
  shows "0 < rnd x"
proof -
  have "(0::real) < 2 powi expo x" by simp
  then show ?thesis using rnd_normal_ge[OF assms] by linarith
qed
lemma rnd_abs_le: "\<bar>rnd x\<bar> \<le> 2 powi (expo x + 1)"
proof (cases "x = 0")
  case True
  then show ?thesis by (simp add: rnd_def)
next
  case False
  have "\<bar>rnd x\<bar> = of_int \<bar>rne (x / 2 powi (expo x - 52))\<bar> * 2 powi (expo x - 52)"
    using False by (simp add: rnd_def abs_mult)
  also have "\<dots> \<le> 2 ^ 53 * 2 powi (expo x - 52)"
  proof -
    have "real_of_int \<bar>rne (x / 2 powi (expo x - 52))\<bar> \<le> 2 ^ 53"
      using rnd_form[OF False] by (metis of_int_le_iff of_int_numeral of_int_power)
    then show ?thesis by (intro mult_right_mono) simp_all
  qed
  also have "\<dots> = 2 powi (expo x + 1)" by (simp add: power_int_diff power_int_add)
  finally show ?thesis .
qed
lemma rnd_small:
  assumes "\<bar>x\<bar> < 2 ^ 1023"
  shows "\<bar>rnd x\<bar> < 2 ^ 1024"
proof (cases "x = 0")
  case True
  then show ?thesis by simp
next
  case False
  have "\<bar>x\<bar> < 2 powi (1022 + 1)" using assms by simp
  then have "expo x \<le> 1022" using expo_le_iff[OF False, of 1022] by simp
  then have "(2::real) powi (expo x + 1) \<le> 2 powi 1023"
    by (intro power_int_increasing) simp_all
  with rnd_abs_le[of x] have "\<bar>rnd x\<bar> \<le> 2 ^ 1023" by simp
  moreover have "(2::real) ^ 1023 < 2 ^ 1024" by (rule power_strict_increasing) simp_all
  ultimately show ?thesis by linarith
qed
lemma rnd_huge:
  assumes "2 ^ 1024 \<le> x"
  shows "\<not> \<bar>rnd x\<bar> < 2 ^ 1024"
proof -
  have "(0::real) < 2 ^ 1024" by (rule zero_less_power) simp
  then have x: "0 < x" using assms by linarith
  have e: "1024 \<le> expo x"
  proof (rule ccontr)
    assume "\<not> 1024 \<le> expo x"
    then have "expo x \<le> 1023" by simp
    then have "\<bar>x\<bar> < 2 powi (1023 + 1)" using expo_le_iff[of x 1023] x by simp
    with assms x show False by simp
  qed
  have "(2::real) powi (- 1022) \<le> 2 powi 1024" by (intro power_int_increasing) simp_all
  then have "2 powi (- 1022) \<le> x" using assms by simp
  from rnd_normal_ge[OF this] have n: "2 powi expo x \<le> rnd x" .
  have "(2::real) powi 1024 \<le> 2 powi expo x" using e by (intro power_int_increasing) simp_all
  with n show ?thesis by simp
qed

subsection \<open>Doubles and numbers\<close>
lemma js_ne_iff: "js_ne x y \<longleftrightarrow> x = NaN \<or> y = NaN \<or> x \<noteq> y"
  by (auto simp: js_ne_def js_eq_def)
lemma is_double_0 [simp]: "is_double 0"
  by (simp add: is_double_def)
lemma dval_dbl [simp]: "is_double x \<Longrightarrow> dval (dbl x) = x"
  by (simp add: dbl_def Abs_double_inverse)
lemma is_double_dval [simp]: "is_double (dval d)"
  using dval[of d] by simp
lemma dbl_dval [simp]: "dbl (dval d) = d"
  by (simp add: dbl_def dval_inverse)
lemma dval_0 [simp]: "dval 0 = 0"
  by (simp add: zero_double.rep_eq)
lemma dbl_0 [simp]: "dbl 0 = 0"
  by (metis dbl_dval dval_0)
lemma double_eq_iff: "a = b \<longleftrightarrow> dval a = dval b"
  by (simp add: dval_inject)
lemma double_le_iff: "a \<le> b \<longleftrightarrow> dval a \<le> dval b"
  by (simp add: less_eq_double.rep_eq)
lemma double_less_iff: "a < b \<longleftrightarrow> dval a < dval b"
  by (simp add: less_double.rep_eq)
lemma dval_bound: "\<bar>dval d\<bar> < 2 ^ 1024"
  using is_double_dval[of d] unfolding is_double_def by simp
lemma is_double_rnd: "\<bar>rnd x\<bar> < 2 ^ 1024 \<Longrightarrow> is_double (rnd x)"
  by (simp add: is_double_def rnd_idem)
lemma is_double_grid:
  assumes "\<bar>k\<bar> < 2 ^ 53" and "- 1074 \<le> j" and "j \<le> 971"
  shows "is_double (of_int k * 2 powi j)"
proof -
  have "\<bar>real_of_int k * 2 powi j\<bar> = of_int \<bar>k\<bar> * 2 powi j" by (simp add: abs_mult)
  also have "\<dots> < 2 ^ 53 * 2 powi j"
  proof -
    have "real_of_int \<bar>k\<bar> < 2 ^ 53"
      using assms(1) by (metis of_int_less_iff of_int_numeral of_int_power)
    then show ?thesis by (intro mult_strict_right_mono) simp_all
  qed
  also have "\<dots> = 2 powi (j + 53)" by (simp add: power_int_add)
  also have "\<dots> \<le> 2 powi 1024" using assms(3) by (intro power_int_increasing) simp_all
  finally show ?thesis using rnd_grid[OF assms(1,2)] by (simp add: is_double_def)
qed
lemma is_double_int: "\<bar>k\<bar> < 2 ^ 53 \<Longrightarrow> is_double (of_int k)"
  using is_double_grid[of k 0] by simp
lemma is_double_frac: "\<bar>k\<bar> < 2 ^ 53 \<Longrightarrow> j \<le> 1074 \<Longrightarrow> is_double (of_int k / 2 ^ j)"
  using is_double_grid[of k "- int j"] by (simp add: power_int_minus field_simps)
lemma is_double_consts [simp]:
  "is_double 1" "is_double (- 1)" "is_double 60" "is_double 1000"
  using is_double_int[of 1] is_double_int[of "- 1"] is_double_int[of 60] is_double_int[of 1000]
  by simp_all
lemma fl_exact: "is_double x \<Longrightarrow> fl x = num x"
  by (simp add: fl_def is_double_def)
lemma fl_dval [simp]: "fl (dval d) = Fin d"
  by (simp add: fl_exact)
lemma fl_0 [simp]: "fl 0 = 0"
  by (simp add: fl_def zero_jsnum_def)
lemma rnd_eval:
  assumes "2 powi e \<le> \<bar>x\<bar>" and "\<bar>x\<bar> < 2 powi (e + 1)" and "- 1022 \<le> e"
  shows "rnd x = of_int (rne (x / 2 powi (e - 52))) * 2 powi (e - 52)"
proof -
  have "(0::real) < 2 powi e" by simp
  then have "0 < \<bar>x\<bar>" using assms(1) by linarith
  then have "x \<noteq> 0" by simp
  then show ?thesis using expo_eq[OF assms] by (simp add: rnd_def)
qed
text \<open>The double of a concrete value, given its binary exponent.\<close>
lemma fl_eval:
  assumes "2 powi e \<le> \<bar>x\<bar>" and "\<bar>x\<bar> < 2 powi (e + 1)" and "- 1022 \<le> e" and "e \<le> 1022"
    and "y = of_int (rne (x / 2 powi (e - 52))) * 2 powi (e - 52)"
  shows "fl x = num y \<and> is_double y"
proof -
  have r: "rnd x = y" using rnd_eval[OF assms(1-3)] assms(5) by simp
  have "(2::real) powi (e + 1) \<le> 2 powi 1023"
    using assms(4) by (intro power_int_increasing) simp_all
  then have "\<bar>x\<bar> < 2 ^ 1023" using assms(2) by simp
  then have b: "\<bar>rnd x\<bar> < 2 ^ 1024" by (rule rnd_small)
  then show ?thesis using is_double_rnd[OF b] r by (simp add: fl_def)
qed
lemma fl_overflow: "2 ^ 1024 \<le> x \<Longrightarrow> fl x = PosInf"
proof -
  assume a: "2 ^ 1024 \<le> x"
  moreover have "(0::real) < 2 ^ 1024" by (rule zero_less_power) simp
  ultimately have "0 < x" by linarith
  then show ?thesis using rnd_huge[OF a] by (simp add: fl_def)
qed
text \<open>The sign of a rounded value.\<close>
lemma fl_nonneg: "0 \<le> x \<Longrightarrow> \<not> js_lt (fl x) 0"
proof -
  assume x: "0 \<le> x"
  show ?thesis
  proof (cases "\<bar>rnd x\<bar> < 2 ^ 1024")
    case True
    then have "dval (dbl (rnd x)) = rnd x" using is_double_rnd by simp
    then show ?thesis
      using True rnd_nonneg[OF x] by (simp add: fl_def zero_jsnum_def double_less_iff)
  next
    case False
    then have "x \<noteq> 0" by auto
    then show ?thesis using False x by (simp add: fl_def zero_jsnum_def)
  qed
qed
lemma js_add_0_right [simp]: "js_add x 0 = x"
  by (cases x) (simp_all add: zero_jsnum_def)
lemma js_le_0_fin: "js_le (Fin m) 0 \<longleftrightarrow> m \<le> 0"
  by (simp add: zero_jsnum_def)
text \<open>\<open>msPerTick = 1000 / Math.max(1, appliedFps)\<close> is a positive finite number,
  whatever finite rate is applied.\<close>
lemma msPerTick_pos:
  "\<exists>m. js_div (num 1000) (js_max (num 1) (Fin fps)) = Fin m \<and> 0 < m"
proof -
  define x where "x = max 1 (dval fps)"
  have mx: "js_max (num 1) (Fin fps) = num x"
    by (auto simp: js_max_def x_def double_le_iff max_def)
  have xd: "is_double x" by (simp add: x_def max_def)
  have x1: "1 \<le> x" and xb: "x < 2 ^ 1024"
    using dval_bound[of fps] by (simp_all add: x_def)
  have nz: "dbl x \<noteq> 0" using xd x1 by (simp add: double_eq_iff)
  define q where "q = 1000 / x"
  have "1000 / (2 ^ 1024 :: real) < q" using x1 xb unfolding q_def
    by (intro divide_strict_left_mono) simp_all
  moreover have "(2::real) powi (- 1022) \<le> 1000 / 2 ^ 1024"
  proof -
    have "(2::real) powi (2 - 1024) = 2 powi 2 / 2 powi 1024"
      by (rule power_int_diff) simp
    then have "(2::real) powi (- 1022) = 2 powi 2 / 2 powi 1024" by simp
    also have "\<dots> \<le> 1000 / 2 powi 1024" by (intro divide_right_mono) simp_all
    finally show ?thesis by simp
  qed
  ultimately have lo: "2 powi (- 1022) \<le> q" by linarith
  have "q \<le> 1000" using x1 by (simp add: q_def field_simps)
  moreover have "0 < q" using x1 by (simp add: q_def)
  moreover have "(1000::real) < 2 ^ 10" by simp
  moreover have "(2::real) ^ 10 \<le> 2 ^ 1023" by (intro power_increasing) simp_all
  ultimately have "\<bar>q\<bar> < 2 ^ 1023" by linarith
  then have b: "\<bar>rnd q\<bar> < 2 ^ 1024" by (rule rnd_small)
  have pos: "0 < rnd q" using lo by (rule rnd_normal_pos)
  have "js_div (num 1000) (num x) = fl q" using nz xd by (simp add: q_def)
  also have "\<dots> = num (rnd q)" using b by (simp add: fl_def)
  finally have "js_div (num 1000) (js_max (num 1) (Fin fps)) = num (rnd q)" by (simp add: mx)
  moreover have "0 < dbl (rnd q)" using pos is_double_rnd[OF b] by (simp add: double_less_iff)
  ultimately show ?thesis by blast
qed

subsection \<open>One frame\<close>
lemma updateUi_frame:
  "running (updateUi e now s) = running s"
  "appliedFps (updateUi e now s) = appliedFps s"
  "accumulatedMs (updateUi e now s) = accumulatedMs s"
  "lastStartMs (updateUi e now s) = lastStartMs s"
  by (simp_all add: updateUi_def Let_def)
lemma updateUi_stopped:
  assumes "\<not> running s"
  shows "tickCount (updateUi e now s) = tickCount s"
    and "tickAccumMs (updateUi e now s) = tickAccumMs s"
    and "lastTickUpdateMs (updateUi e now s) = 0"
  using assms by (simp_all add: updateUi_def Let_def)
text \<open>A frame at the instant of the baseline, on an empty accumulator, changes nothing
  but the display cache.\<close>
lemma updateUi_idle:
  assumes "running s" and "lastTickUpdateMs s = now" and "tickAccumMs s = 0"
  shows "updateUi e now s =
           (if calcEl e \<and> js_ne (tickCount s) (lastShownTick s)
            then s\<lparr>lastShownTick := tickCount s\<rparr> else s)"
proof -
  obtain m where m: "js_div (num 1000) (js_max (num 1) (Fin (appliedFps s))) = Fin m" "0 < m"
    using msPerTick_pos by blast
  have g: "\<not> js_le (Fin m) 0" using m(2) by (simp add: js_le_0_fin)
  have same: "s\<lparr>lastTickUpdateMs := now, tickAccumMs := 0\<rparr> = s" using assms(2,3) by simp
  show ?thesis
    using assms g same by (simp add: updateUi_def Let_def m(1))
qed
lemma updateUi_tickCount_nan:
  "tickCount s = NaN \<Longrightarrow> tickCount (updateUi e now s) = NaN"
  by (simp add: updateUi_def Let_def)
subsection \<open>Applying a rate\<close>
text \<open>
  C4. For every positive finite \<open>newRate\<close> and every prior state, committing the rate (all
  clock reads of the handler at the one instant \<open>now\<close>) sets \<open>appliedFps = newRate\<close> and
  \<open>tickAccumMs = 0\<close>, sets \<open>lastTickUpdateMs\<close> to \<open>now\<close> when running and to the
  no-baseline value \<open>0\<close> otherwise, and leaves \<open>tickCount\<close> as it was; the wall clock
  fields are not touched either.
\<close>
theorem commitRate_effects:
  assumes "0 < v"
  shows "let (ok, s') = commitAppliedFps e (Some (Fin v)) now now s
         in ok \<and> appliedFps s' = v \<and> tickAccumMs s' = 0 \<and>
            lastTickUpdateMs s' = (if running s then now else 0) \<and>
            tickCount s' = tickCount s \<and>
            accumulatedMs s' = accumulatedMs s \<and> lastStartMs s' = lastStartMs s \<and>
            running s' = running s"
proof (cases "running s")
  case True
  let ?s1 = "s\<lparr>appliedFps := v, tickAccumMs := 0, lastTickUpdateMs := now,
               lastShownTick := num (- 1)\<rparr>"
  have "updateUi e now ?s1 =
          (if calcEl e \<and> js_ne (tickCount ?s1) (lastShownTick ?s1)
           then ?s1\<lparr>lastShownTick := tickCount ?s1\<rparr> else ?s1)"
    using True by (intro updateUi_idle) simp_all
  then show ?thesis
    using True assms by (simp add: commitAppliedFps_def)
next
  case False
  then show ?thesis
    using assms
    by (simp add: commitAppliedFps_def updateUi_stopped updateUi_frame)
qed
theorem commitRate_effects_witness:
  "let s = \<lparr>accumulatedMs = 0, lastStartMs = dbl 100, running = True, appliedFps = dbl 60,
            lastShownTick = num 7, tickCount = num 7, tickAccumMs = num 5,
            lastTickUpdateMs = dbl 220\<rparr>;
       (ok, s') = commitAppliedFps no_player (Some (num 30)) (dbl 250) (dbl 250) s
   in 0 < dbl 30 \<and> ok \<and> appliedFps s' = dbl 30 \<and> tickAccumMs s' = 0 \<and>
      lastTickUpdateMs s' = dbl 250 \<and> tickCount s' = num 7"
proof -
  have "is_double 30" using is_double_int[of 30] by simp
  then have p: "0 < dbl 30" by (simp add: double_less_iff)
  from commitRate_effects[OF p, of no_player "dbl 250"
      "\<lparr>accumulatedMs = 0, lastStartMs = dbl 100, running = True, appliedFps = dbl 60,
            lastShownTick = num 7, tickCount = num 7, tickAccumMs = num 5,
            lastTickUpdateMs = dbl 220\<rparr>"] p
  show ?thesis by (simp add: Let_def split: prod.splits)
qed
text \<open>
  C7. For every \<open>newRate\<close> that is not finite or not positive, committing is rejected
  (the handler returns \<open>false\<close>) and the state after the call is the state before it.
\<close>
theorem commitRate_rejects:
  assumes "isFinite raw = None \<or> (\<exists>v. raw = Fin v \<and> v \<le> 0)"
  shows "commitAppliedFps e (Some raw) t1 t2 s = (False, s)"
  using assms by (cases raw) (auto simp: commitAppliedFps_def)
theorem commitRate_rejects_witness:
  "(isFinite NaN = None \<or> (\<exists>v. NaN = Fin v \<and> v \<le> 0)) \<and>
   commitAppliedFps no_player (Some NaN) (dbl 250) (dbl 250) module_state
     = (False, module_state) \<and>
   (isFinite (num (- 5)) = None \<or> (\<exists>v. num (- 5) = Fin v \<and> v \<le> 0)) \<and>
   commitAppliedFps no_player (Some (num (- 5))) (dbl 250) (dbl 250) module_state
     = (False, module_state)"
proof -
  have "is_double (- 5)" using is_double_int[of "- 5"] by simp
  then have "dbl (- 5) \<le> 0" by (simp add: double_le_iff)
  then have b: "isFinite (num (- 5)) = None \<or> (\<exists>v. num (- 5) = Fin v \<and> v \<le> 0)" by simp
  have a: "isFinite NaN = None \<or> (\<exists>v. NaN = Fin v \<and> v \<le> 0)" by simp
  show ?thesis
    using a b commitRate_rejects[OF a, of no_player "dbl 250" "dbl 250" module_state]
      commitRate_rejects[OF b, of no_player "dbl 250" "dbl 250" module_state]
    by simp
qed
subsection \<open>Skips that are refused\<close>
text \<open>
  C8. For every amount that is not finite or is negative, and for every direction other
  than \<open>-1\<close> and \<open>+1\<close>, \<open>skipBy\<close> does nothing: the state after is the state before and
  no call goes to the player.
\<close>
theorem skipBy_invalid_noop:
  assumes "isFinite amount = None \<or> (\<exists>a. amount = Fin a \<and> a < 0) \<or>
           (direction \<noteq> - 1 \<and> direction \<noteq> 1)"
  shows "skipBy e amount unit direction t1 t2 t3 t4 s = (s, [])"
  using assms by (cases amount) (auto simp: skipBy_def)
theorem skipBy_invalid_noop_witness:
  "(isFinite (num (- 3)) = None \<or> (\<exists>a. num (- 3) = Fin a \<and> a < 0) \<or>
         ((1::int) \<noteq> - 1 \<and> (1::int) \<noteq> 1)) \<and>
   skipBy (video10 9) (num (- 3)) ''seconds'' 1 (dbl 5) (dbl 5) (dbl 5) (dbl 5) module_state
     = (module_state, []) \<and>
   (isFinite (num 3) = None \<or> (\<exists>a. num 3 = Fin a \<and> a < 0) \<or>
         ((0::int) \<noteq> - 1 \<and> (0::int) \<noteq> 1)) \<and>
   skipBy (video10 9) (num 3) ''seconds'' 0 (dbl 5) (dbl 5) (dbl 5) (dbl 5) module_state
     = (module_state, [])"
proof -
  have "is_double (- 3)" using is_double_int[of "- 3"] by simp
  then have "dbl (- 3) < 0" by (simp add: double_less_iff)
  then have a: "isFinite (num (- 3)) = None \<or> (\<exists>a. num (- 3) = Fin a \<and> a < 0) \<or>
         ((1::int) \<noteq> - 1 \<and> (1::int) \<noteq> 1)" by simp
  have b: "isFinite (num 3) = None \<or> (\<exists>a. num 3 = Fin a \<and> a < 0) \<or>
         ((0::int) \<noteq> - 1 \<and> (0::int) \<noteq> 1)" by simp
  show ?thesis
    using a b skipBy_invalid_noop[OF a] skipBy_invalid_noop[OF b] by simp
qed
subsection \<open>Resetting\<close>
lemma play_tickCount_nan: "tickCount s = NaN \<Longrightarrow> tickCount (play e t1 t2 t3 s) = NaN"
  by (simp add: play_def Let_def updateUi_tickCount_nan)
lemma stop_tickCount_nan: "tickCount s = NaN \<Longrightarrow> tickCount (stop e t1 t2 s) = NaN"
  by (simp add: stop_def Let_def updateUi_tickCount_nan)
lemma commit_tickCount_nan:
  "tickCount s = NaN \<Longrightarrow> tickCount (snd (commitAppliedFps e fpsInput t1 t2 s)) = NaN"
  by (simp add: commitAppliedFps_def updateUi_tickCount_nan split: option.splits)
lemma skipBy_tickCount_nan:
  "tickCount s = NaN \<Longrightarrow> tickCount (fst (skipBy e amount unit direction t1 t2 t3 t4 s)) = NaN"
  by (simp add: skipBy_def Let_def updateUi_tickCount_nan js_max_def split: option.splits)
text \<open>
  C9. Whatever the state before, \<open>reset\<close> (its clock reads all at \<open>now\<close>) leaves
  \<open>tickCount = 0\<close>, \<open>accumulatedMs = 0\<close>, \<open>tickAccumMs = 0\<close>, \<open>running = true\<close>,
  \<open>lastStartMs = now\<close> and \<open>lastTickUpdateMs = now\<close>. It is the only operation that
  zeroes both clocks: a frame, play, stop, applying a rate and skipping, with any
  arguments, each leave some state with a clock that is not zero.
\<close>
theorem reset_zeroes_both_clocks:
  "(let s' = reset e now now now s
    in tickCount s' = 0 \<and> accumulatedMs s' = 0 \<and> tickAccumMs s' = 0 \<and> running s' \<and>
       lastStartMs s' = now \<and> lastTickUpdateMs s' = now) \<and>
   zeroes_both (reset e now now now) \<and>
   \<not> zeroes_both (updateUi e t1) \<and>
   \<not> zeroes_both (play e t1 t2 t3) \<and>
   \<not> zeroes_both (stop e t1 t2) \<and>
   \<not> zeroes_both (\<lambda>s. snd (commitAppliedFps e fpsInput t1 t2 s)) \<and>
   \<not> zeroes_both (\<lambda>s. fst (skipBy e amount unit direction t1 t2 t3 t4 s))"
proof -
  have post: "tickCount (reset e now now now s) = 0 \<and> accumulatedMs (reset e now now now s) = 0 \<and>
      tickAccumMs (reset e now now now s) = 0 \<and> running (reset e now now now s) \<and>
      lastStartMs (reset e now now now s) = now \<and> lastTickUpdateMs (reset e now now now s) = now"
    for s
  proof -
    let ?s1 = "s\<lparr>accumulatedMs := 0, lastStartMs := now, running := True,
                  tickCount := 0, tickAccumMs := 0, lastTickUpdateMs := now,
                  lastShownTick := num (- 1)\<rparr>"
    have "updateUi e now ?s1 =
            (if calcEl e \<and> js_ne (tickCount ?s1) (lastShownTick ?s1)
             then ?s1\<lparr>lastShownTick := tickCount ?s1\<rparr> else ?s1)"
      by (intro updateUi_idle) simp_all
    then show ?thesis by (simp add: reset_def Let_def)
  qed
  define lost where "lost = module_state\<lparr>tickCount := NaN\<rparr>"
  have lost: "tickCount lost = NaN" by (simp add: lost_def)
  have nz: "\<not> zeroes_both f" if "tickCount (f lost) = NaN" for f
  proof
    assume "zeroes_both f"
    then have "tickCount (f lost) = 0" by (simp add: zeroes_both_def)
    with that show False by (simp add: zero_jsnum_def)
  qed
  have frame: "\<not> zeroes_both (updateUi e t1)"
    by (rule nz) (rule updateUi_tickCount_nan[OF lost])
  have play: "\<not> zeroes_both (play e t1 t2 t3)"
    by (rule nz) (rule play_tickCount_nan[OF lost])
  have stop: "\<not> zeroes_both (stop e t1 t2)"
    by (rule nz) (rule stop_tickCount_nan[OF lost])
  have commit: "\<not> zeroes_both (\<lambda>s. snd (commitAppliedFps e fpsInput t1 t2 s))"
    by (rule nz) (rule commit_tickCount_nan[OF lost])
  have skip: "\<not> zeroes_both (\<lambda>s. fst (skipBy e amount unit direction t1 t2 t3 t4 s))"
    by (rule nz) (rule skipBy_tickCount_nan[OF lost])
  have reset: "zeroes_both (reset e now now now)"
    using post by (simp add: zeroes_both_def)
  show ?thesis
    unfolding Let_def using post[of s] reset frame play stop commit skip by blast
qed

lemma js_sub_self [simp]: "js_sub (Fin a) (Fin a) = 0"
  by simp
lemma updateUi_count:
  assumes "running s"
    and "js_add (tickAccumMs s)
           (if lastTickUpdateMs s = 0 then 0
            else js_sub (Fin now) (Fin (lastTickUpdateMs s))) = acc"
    and "js_div (num 1000) (js_max (num 1) (Fin (appliedFps s))) = m"
    and "js_le m acc"
    and "Math_floor (js_div acc m) = n"
    and "js_add (tickCount s) n = c"
    and "js_sub acc (js_mul n m) = r"
  shows "updateUi e now s =
           s\<lparr>lastTickUpdateMs := now, tickCount := c, tickAccumMs := r,
             lastShownTick := (if calcEl e \<and> js_ne c (lastShownTick s) then c
                               else lastShownTick s)\<rparr>"
  using assms by (auto simp: updateUi_def Let_def)
lemma updateUi_wait:
  assumes "running s"
    and "js_add (tickAccumMs s)
           (if lastTickUpdateMs s = 0 then 0
            else js_sub (Fin now) (Fin (lastTickUpdateMs s))) = acc"
    and "js_div (num 1000) (js_max (num 1) (Fin (appliedFps s))) = m"
    and "\<not> js_le m acc"
  shows "updateUi e now s =
           s\<lparr>lastTickUpdateMs := now, tickAccumMs := acc,
             lastShownTick := (if calcEl e \<and> js_ne (tickCount s) (lastShownTick s)
                               then tickCount s else lastShownTick s)\<rparr>"
  using assms by (auto simp: updateUi_def Let_def)
lemma updateUi_paused:
  assumes "\<not> running s"
  shows "updateUi e now s =
           s\<lparr>lastTickUpdateMs := 0,
             lastShownTick := (if calcEl e \<and> js_ne (tickCount s) (lastShownTick s)
                               then tickCount s else lastShownTick s)\<rparr>"
  using assms by (auto simp: updateUi_def Let_def)

subsection \<open>Evaluating the arithmetic\<close>
lemma is_double_numeral [simp]: "numeral n < (2::int) ^ 53 \<Longrightarrow> is_double (numeral n)"
  using is_double_int[of "numeral n"] by simp
lemma dbl_eq_iff: "is_double a \<Longrightarrow> is_double b \<Longrightarrow> dbl a = dbl b \<longleftrightarrow> a = b"
  by (simp add: double_eq_iff)
lemma dbl_eq_0_iff: "is_double a \<Longrightarrow> dbl a = 0 \<longleftrightarrow> a = 0"
  by (simp add: double_eq_iff)
lemma dbl_le_iff: "is_double a \<Longrightarrow> is_double b \<Longrightarrow> dbl a \<le> dbl b \<longleftrightarrow> a \<le> b"
  by (simp add: double_le_iff)
lemma dbl_less_iff: "is_double a \<Longrightarrow> is_double b \<Longrightarrow> dbl a < dbl b \<longleftrightarrow> a < b"
  by (simp add: double_less_iff)
lemma js_add_num: "is_double a \<Longrightarrow> is_double b \<Longrightarrow> js_add (num a) (num b) = fl (a + b)"
  by simp
lemma js_sub_num: "is_double a \<Longrightarrow> is_double b \<Longrightarrow> js_sub (num a) (num b) = fl (a - b)"
  by simp
lemma js_mul_num: "is_double a \<Longrightarrow> is_double b \<Longrightarrow> js_mul (num a) (num b) = fl (a * b)"
  by simp
lemma js_div_num:
  "is_double a \<Longrightarrow> is_double b \<Longrightarrow> b \<noteq> 0 \<Longrightarrow> js_div (num a) (num b) = fl (a / b)"
  by (simp add: dbl_eq_0_iff)
lemma js_le_num: "is_double a \<Longrightarrow> is_double b \<Longrightarrow> js_le (num a) (num b) \<longleftrightarrow> a \<le> b"
  by (simp add: dbl_le_iff)
lemma js_max_num:
  "is_double a \<Longrightarrow> is_double b \<Longrightarrow> js_max (num a) (num b) = num (max a b)"
  by (simp add: js_max_def dbl_le_iff max_def)
lemma js_min_num:
  "is_double a \<Longrightarrow> is_double b \<Longrightarrow> js_min (num a) (num b) = num (min a b)"
  by (simp add: js_min_def dbl_le_iff min_def)
lemma Math_floor_num: "is_double a \<Longrightarrow> Math_floor (num a) = fl (of_int \<lfloor>a\<rfloor>)"
  by simp
lemma Math_round_num: "is_double a \<Longrightarrow> Math_round (num a) = fl (of_int \<lfloor>a + 1 / 2\<rfloor>)"
  by simp
lemma fl_numeral [simp]: "numeral n < (2::int) ^ 53 \<Longrightarrow> fl (numeral n) = num (numeral n)"
  by (simp add: fl_exact)
lemma fl_1 [simp]: "fl 1 = num 1"
  by (simp add: fl_exact)
lemma num_0 [simp]: "num 0 = 0"
  by (simp add: zero_jsnum_def)
subsection \<open>Sixty ticks a second\<close>
lemma d_m60: "is_double (4691249611844267 / 2 ^ 48)"
  using is_double_frac[of 4691249611844267 48] by simp
lemma d_p99: "is_double (7256776743321601 / 2 ^ 42)"
  using is_double_frac[of 7256776743321601 42] by simp
lemma d_r99: "is_double (- 1 / 2 ^ 42)"
  using is_double_frac[of "- 1" 42] by simp
lemma m60: "js_div (num 1000) (js_max (num 1) (Fin DEFAULT_FPS)) = num (4691249611844267 / 2 ^ 48)"
proof -
  have "js_div (num 1000) (js_max (num 1) (Fin DEFAULT_FPS)) = fl (1000 / 60)"
    by (simp add: DEFAULT_FPS_def js_max_num dbl_eq_0_iff)
  also have "\<dots> = num (4691249611844267 / 2 ^ 48)"
    by (rule fl_eval[where e = 4, THEN conjunct1]) (simp_all add: rne_def)
  finally show ?thesis .
qed
lemma q1650: "js_div (num 1650) (num (4691249611844267 / 2 ^ 48)) = num 99"
proof -
  have "js_div (num 1650) (num (4691249611844267 / 2 ^ 48))
          = fl (1650 / (4691249611844267 / 2 ^ 48))"
    by (rule js_div_num[OF _ d_m60]) simp_all
  also have "\<dots> = num 99"
    by (rule fl_eval[where e = 6, THEN conjunct1]) (simp_all add: rne_def)
  finally show ?thesis .
qed
lemma p99: "js_mul (num 99) (num (4691249611844267 / 2 ^ 48)) = num (7256776743321601 / 2 ^ 42)"
proof -
  have "js_mul (num 99) (num (4691249611844267 / 2 ^ 48))
          = fl (99 * (4691249611844267 / 2 ^ 48))"
    by (rule js_mul_num[OF _ d_m60]) simp_all
  also have "\<dots> = num (7256776743321601 / 2 ^ 42)"
    by (rule fl_eval[where e = 10, THEN conjunct1]) (simp_all add: rne_def)
  finally show ?thesis .
qed
lemma r99: "js_sub (num 1650) (num (7256776743321601 / 2 ^ 42)) = num (- 1 / 2 ^ 42)"
proof -
  have "js_sub (num 1650) (num (7256776743321601 / 2 ^ 42))
          = fl (1650 - 7256776743321601 / 2 ^ 42)"
    by (rule js_sub_num[OF _ d_p99]) simp_all
  also have "\<dots> = fl (- 1 / 2 ^ 42)" by simp
  also have "\<dots> = num (- 1 / 2 ^ 42)" by (rule fl_exact[OF d_r99])
  finally show ?thesis .
qed
lemma loaded60_eq: "loaded60 = module_state\<lparr>lastShownTick := 0\<rparr>"
proof -
  have "dbl (- 1) \<noteq> 0" by (simp add: dbl_eq_0_iff)
  then show ?thesis
    by (simp add: loaded60_def domContentLoaded_def updateUi_paused module_state_def
        no_player_def js_ne_iff zero_jsnum_def)
qed
lemma played60_eq:
  "played60 = \<lparr>accumulatedMs = 0, lastStartMs = dbl 1000, running = True,
      appliedFps = DEFAULT_FPS, lastShownTick = 0, tickCount = 0, tickAccumMs = 0,
      lastTickUpdateMs = dbl 1000\<rparr>"
proof -
  let ?s = "\<lparr>accumulatedMs = 0, lastStartMs = dbl 1000, running = True,
      appliedFps = DEFAULT_FPS, lastShownTick = 0, tickCount = 0, tickAccumMs = 0,
      lastTickUpdateMs = dbl 1000\<rparr>"
  have "updateUi no_player (dbl 1000) ?s =
          (if calcEl no_player \<and> js_ne (tickCount ?s) (lastShownTick ?s)
           then ?s\<lparr>lastShownTick := tickCount ?s\<rparr> else ?s)"
    by (rule updateUi_idle) simp_all
  then show ?thesis
    by (simp add: played60_def loaded60_eq play_def throws_def module_state_def
        no_player_def js_ne_iff)
qed
lemma session1650_eq:
  "session1650 = \<lparr>accumulatedMs = 0, lastStartMs = dbl 1000, running = True,
      appliedFps = DEFAULT_FPS, lastShownTick = num 99, tickCount = num 99,
      tickAccumMs = num (- 1 / 2 ^ 42), lastTickUpdateMs = dbl 2650\<rparr>"
proof -
  let ?s = "\<lparr>accumulatedMs = 0, lastStartMs = dbl 1000, running = True,
      appliedFps = DEFAULT_FPS, lastShownTick = 0, tickCount = 0, tickAccumMs = 0,
      lastTickUpdateMs = dbl 1000\<rparr>"
  have nz: "dbl 1000 \<noteq> 0" "dbl 99 \<noteq> 0" by (simp_all add: dbl_eq_0_iff)
  have "updateUi no_player (dbl 2650) ?s =
      ?s\<lparr>lastTickUpdateMs := dbl 2650, tickCount := num 99,
         tickAccumMs := num (- 1 / 2 ^ 42),
         lastShownTick := (if calcEl no_player \<and> js_ne (num 99) (lastShownTick ?s)
                           then num 99 else lastShownTick ?s)\<rparr>"
  proof (rule updateUi_count[where acc = "num 1650"
        and m = "num (4691249611844267 / 2 ^ 48)" and n = "num 99"])
    show "running ?s" by simp
    show "js_add (tickAccumMs ?s)
           (if lastTickUpdateMs ?s = 0 then 0
            else js_sub (Fin (dbl 2650)) (Fin (lastTickUpdateMs ?s))) = num 1650"
      using nz by (simp add: zero_jsnum_def)
    show "js_div (num 1000) (js_max (num 1) (Fin (appliedFps ?s)))
            = num (4691249611844267 / 2 ^ 48)"
      using m60 by simp
    show "js_le (num (4691249611844267 / 2 ^ 48)) (num 1650)"
      by (subst js_le_num[OF d_m60]) simp_all
    show "Math_floor (js_div (num 1650) (num (4691249611844267 / 2 ^ 48))) = num 99"
      by (simp only: q1650) simp
    show "js_add (tickCount ?s) (num 99) = num 99"
      by (simp add: zero_jsnum_def)
    show "js_sub (num 1650) (js_mul (num 99) (num (4691249611844267 / 2 ^ 48)))
            = num (- 1 / 2 ^ 42)"
      by (simp only: p99 r99)
  qed
  then show ?thesis
    using nz by (simp add: session1650_def played60_eq no_player_def js_ne_iff zero_jsnum_def)
qed

subsection \<open>Fifty-one ticks a second\<close>
lemma d_m51: "is_double (1379779297601255 / 2 ^ 46)"
  using is_double_frac[of 1379779297601255 46] by simp
lemma d_q866: "is_double (7626212650254335 / 2 ^ 43)"
  using is_double_frac[of 7626212650254335 43] by simp
lemma d_p866: "is_double (4667534655166745 / 2 ^ 38)"
  using is_double_frac[of 4667534655166745 38] by simp
lemma d_r866: "is_double (5389762881255 / 2 ^ 38)"
  using is_double_frac[of 5389762881255 38] by simp
lemma d_q1: "is_double (2251799813685289 / 2 ^ 51)"
  using is_double_frac[of 2251799813685289 51] by simp
lemma d_r1: "is_double (25 / 2 ^ 46)"
  using is_double_frac[of 25 46] by simp
lemma m51: "js_div (num 1000) (js_max (num 1) (num 51)) = num (1379779297601255 / 2 ^ 46)"
proof -
  have "js_div (num 1000) (js_max (num 1) (num 51)) = fl (1000 / 51)"
    by (simp add: js_max_num dbl_eq_0_iff)
  also have "\<dots> = num (1379779297601255 / 2 ^ 46)"
    by (rule fl_eval[where e = 4, THEN conjunct1]) (simp_all add: rne_def)
  finally show ?thesis .
qed
lemma q866: "Math_floor (js_div (num 17000) (num (1379779297601255 / 2 ^ 46))) = num 866"
proof -
  have "js_div (num 17000) (num (1379779297601255 / 2 ^ 46))
          = fl (17000 / (1379779297601255 / 2 ^ 46))"
    by (rule js_div_num[OF _ d_m51]) simp_all
  also have "\<dots> = num (7626212650254335 / 2 ^ 43)"
    by (rule fl_eval[where e = 9, THEN conjunct1]) (simp_all add: rne_def)
  finally have "Math_floor (js_div (num 17000) (num (1379779297601255 / 2 ^ 46)))
                  = fl (of_int \<lfloor>7626212650254335 / 2 ^ 43 :: real\<rfloor>)"
    by (simp only: Math_floor_num[OF d_q866])
  also have "\<dots> = num 866" by simp
  finally show ?thesis .
qed
lemma p866:
  "js_mul (num 866) (num (1379779297601255 / 2 ^ 46)) = num (4667534655166745 / 2 ^ 38)"
proof -
  have "js_mul (num 866) (num (1379779297601255 / 2 ^ 46))
          = fl (866 * (1379779297601255 / 2 ^ 46))"
    by (rule js_mul_num[OF _ d_m51]) simp_all
  also have "\<dots> = num (4667534655166745 / 2 ^ 38)"
    by (rule fl_eval[where e = 14, THEN conjunct1]) (simp_all add: rne_def)
  finally show ?thesis .
qed
lemma r866:
  "js_sub (num 17000) (num (4667534655166745 / 2 ^ 38)) = num (5389762881255 / 2 ^ 38)"
proof -
  have "js_sub (num 17000) (num (4667534655166745 / 2 ^ 38))
          = fl (17000 - 4667534655166745 / 2 ^ 38)"
    by (rule js_sub_num[OF _ d_p866]) simp_all
  also have "\<dots> = fl (5389762881255 / 2 ^ 38)" by simp
  also have "\<dots> = num (5389762881255 / 2 ^ 38)" by (rule fl_exact[OF d_r866])
  finally show ?thesis .
qed
lemma over51: "js_le (num (1379779297601255 / 2 ^ 46)) (num (5389762881255 / 2 ^ 38))"
  by (subst js_le_num[OF d_m51 d_r866]) simp
lemma q1: "Math_floor (js_div (num (5389762881255 / 2 ^ 38)) (num (1379779297601255 / 2 ^ 46)))
             = num 1"
proof -
  have "js_div (num (5389762881255 / 2 ^ 38)) (num (1379779297601255 / 2 ^ 46))
          = fl (5389762881255 / 2 ^ 38 / (1379779297601255 / 2 ^ 46))"
    by (rule js_div_num[OF d_r866 d_m51]) simp
  also have "\<dots> = num (2251799813685289 / 2 ^ 51)"
    by (rule fl_eval[where e = 0, THEN conjunct1]) (simp_all add: rne_def)
  finally have "Math_floor (js_div (num (5389762881255 / 2 ^ 38))
                  (num (1379779297601255 / 2 ^ 46)))
                  = fl (of_int \<lfloor>2251799813685289 / 2 ^ 51 :: real\<rfloor>)"
    by (simp only: Math_floor_num[OF d_q1])
  also have "\<dots> = num 1" by simp
  finally show ?thesis .
qed
lemma r1:
  "js_sub (num (5389762881255 / 2 ^ 38)) (js_mul (num 1) (num (1379779297601255 / 2 ^ 46)))
     = num (25 / 2 ^ 46)"
proof -
  have "js_mul (num 1) (num (1379779297601255 / 2 ^ 46)) = num (1379779297601255 / 2 ^ 46)"
    using d_m51 by (simp add: fl_exact)
  moreover have "js_sub (num (5389762881255 / 2 ^ 38)) (num (1379779297601255 / 2 ^ 46))
      = fl (5389762881255 / 2 ^ 38 - 1379779297601255 / 2 ^ 46)"
    by (rule js_sub_num[OF d_r866 d_m51])
  moreover have "fl (5389762881255 / 2 ^ 38 - 1379779297601255 / 2 ^ 46) = fl (25 / 2 ^ 46)"
    by simp
  moreover have "fl (25 / 2 ^ 46) = num (25 / 2 ^ 46)" by (rule fl_exact[OF d_r1])
  ultimately show ?thesis by simp
qed
lemma applied51_eq:
  "applied51 = \<lparr>accumulatedMs = 0, lastStartMs = 0, running = False,
      appliedFps = dbl 51, lastShownTick = 0, tickCount = 0, tickAccumMs = 0,
      lastTickUpdateMs = 0\<rparr>"
proof -
  have "dbl (- 1) \<noteq> 0" "0 < dbl 51" by (simp_all add: dbl_eq_0_iff double_less_iff)
  then show ?thesis
    by (simp add: applied51_def loaded60_eq commitAppliedFps_def updateUi_paused
        module_state_def no_player_def js_ne_iff zero_jsnum_def)
qed
lemma played51_eq:
  "played51 = \<lparr>accumulatedMs = 0, lastStartMs = dbl 1000, running = True,
      appliedFps = dbl 51, lastShownTick = 0, tickCount = 0, tickAccumMs = 0,
      lastTickUpdateMs = dbl 1000\<rparr>"
proof -
  let ?s = "\<lparr>accumulatedMs = 0, lastStartMs = dbl 1000, running = True,
      appliedFps = dbl 51, lastShownTick = 0, tickCount = 0, tickAccumMs = 0,
      lastTickUpdateMs = dbl 1000\<rparr>"
  have "updateUi no_player (dbl 1000) ?s =
          (if calcEl no_player \<and> js_ne (tickCount ?s) (lastShownTick ?s)
           then ?s\<lparr>lastShownTick := tickCount ?s\<rparr> else ?s)"
    by (rule updateUi_idle) simp_all
  then show ?thesis
    by (simp add: played51_def applied51_eq play_def throws_def no_player_def js_ne_iff)
qed
lemma session51_eq:
  "session51 = \<lparr>accumulatedMs = 0, lastStartMs = dbl 1000, running = True,
      appliedFps = dbl 51, lastShownTick = num 866, tickCount = num 866,
      tickAccumMs = num (5389762881255 / 2 ^ 38), lastTickUpdateMs = dbl 18000\<rparr>"
proof -
  let ?s = "\<lparr>accumulatedMs = 0, lastStartMs = dbl 1000, running = True,
      appliedFps = dbl 51, lastShownTick = 0, tickCount = 0, tickAccumMs = 0,
      lastTickUpdateMs = dbl 1000\<rparr>"
  have nz: "dbl 1000 \<noteq> 0" "dbl 866 \<noteq> 0" by (simp_all add: dbl_eq_0_iff)
  have "updateUi no_player (dbl 18000) ?s =
      ?s\<lparr>lastTickUpdateMs := dbl 18000, tickCount := num 866,
         tickAccumMs := num (5389762881255 / 2 ^ 38),
         lastShownTick := (if calcEl no_player \<and> js_ne (num 866) (lastShownTick ?s)
                           then num 866 else lastShownTick ?s)\<rparr>"
  proof (rule updateUi_count[where acc = "num 17000"
        and m = "num (1379779297601255 / 2 ^ 46)" and n = "num 866"])
    show "running ?s" by simp
    show "js_add (tickAccumMs ?s)
           (if lastTickUpdateMs ?s = 0 then 0
            else js_sub (Fin (dbl 18000)) (Fin (lastTickUpdateMs ?s))) = num 17000"
      using nz by (simp add: zero_jsnum_def)
    show "js_div (num 1000) (js_max (num 1) (Fin (appliedFps ?s)))
            = num (1379779297601255 / 2 ^ 46)"
      using m51 by simp
    show "js_le (num (1379779297601255 / 2 ^ 46)) (num 17000)"
      by (subst js_le_num[OF d_m51]) simp_all
    show "Math_floor (js_div (num 17000) (num (1379779297601255 / 2 ^ 46))) = num 866"
      by (rule q866)
    show "js_add (tickCount ?s) (num 866) = num 866"
      by (simp add: zero_jsnum_def)
    show "js_sub (num 17000) (js_mul (num 866) (num (1379779297601255 / 2 ^ 46)))
            = num (5389762881255 / 2 ^ 38)"
      by (simp only: p866 r866)
  qed
  then show ?thesis
    using nz by (simp add: session51_def played51_eq no_player_def js_ne_iff zero_jsnum_def)
qed
text \<open>The state that \<open>skipBy(1, 'seconds', +1)\<close> hands to its closing \<open>updateUi\<close>.\<close>
lemma skip51_before_frame:
  "skipBy no_player (num 1) ''seconds'' 1 (dbl 18000) (dbl 18000) (dbl 18000) (dbl 18000)
     session51
   = (updateUi no_player (dbl 18000)
        \<lparr>accumulatedMs = num 1000, lastStartMs = dbl 1000, running = True,
         appliedFps = dbl 51, lastShownTick = num (- 1), tickCount = num 917,
         tickAccumMs = num (5389762881255 / 2 ^ 38), lastTickUpdateMs = dbl 18000\<rparr>, [])"
proof -
  have c: "\<not> dbl 1 < 0" "dbl 51 \<noteq> 0" "dbl 1000 \<noteq> 0" "dbl 18 \<noteq> 0" "dbl 917 \<noteq> 0"
    "(0::double) \<le> dbl 18" "(0::double) \<le> dbl 917" "(0::double) \<le> dbl 1000"
    by (simp_all add: dbl_eq_0_iff double_less_iff double_le_iff)
  show ?thesis
    using c
    by (simp add: skipBy_def session51_eq Let_def elapsed_def currentSec_def durationSecOf_def
        clamp_def js_max_def js_min_def js_ne_iff queries_def seeks_def no_player_def
        zero_jsnum_def dbl_eq_iff)
qed
lemma skipped51_eq:
  "skipped51 = \<lparr>accumulatedMs = num 1000, lastStartMs = dbl 1000, running = True,
         appliedFps = dbl 51, lastShownTick = num 918, tickCount = num 918,
         tickAccumMs = num (25 / 2 ^ 46), lastTickUpdateMs = dbl 18000\<rparr>"
proof -
  let ?s = "\<lparr>accumulatedMs = num 1000, lastStartMs = dbl 1000, running = True,
         appliedFps = dbl 51, lastShownTick = num (- 1), tickCount = num 917,
         tickAccumMs = num (5389762881255 / 2 ^ 38), lastTickUpdateMs = dbl 18000\<rparr>"
  have nz: "dbl 18000 \<noteq> 0" "dbl 918 \<noteq> dbl (- 1)"
    by (simp_all add: dbl_eq_0_iff dbl_eq_iff)
  have "updateUi no_player (dbl 18000) ?s =
      ?s\<lparr>lastTickUpdateMs := dbl 18000, tickCount := num 918,
         tickAccumMs := num (25 / 2 ^ 46),
         lastShownTick := (if calcEl no_player \<and> js_ne (num 918) (lastShownTick ?s)
                           then num 918 else lastShownTick ?s)\<rparr>"
  proof (rule updateUi_count[where acc = "num (5389762881255 / 2 ^ 38)"
        and m = "num (1379779297601255 / 2 ^ 46)" and n = "num 1"])
    show "running ?s" by simp
    show "js_add (tickAccumMs ?s)
           (if lastTickUpdateMs ?s = 0 then 0
            else js_sub (Fin (dbl 18000)) (Fin (lastTickUpdateMs ?s)))
          = num (5389762881255 / 2 ^ 38)"
      using nz by simp
    show "js_div (num 1000) (js_max (num 1) (Fin (appliedFps ?s)))
            = num (1379779297601255 / 2 ^ 46)"
      using m51 by simp
    show "js_le (num (1379779297601255 / 2 ^ 46)) (num (5389762881255 / 2 ^ 38))"
      by (rule over51)
    show "Math_floor (js_div (num (5389762881255 / 2 ^ 38))
            (num (1379779297601255 / 2 ^ 46))) = num 1"
      by (rule q1)
    show "js_add (tickCount ?s) (num 1) = num 918"
      by simp
    show "js_sub (num (5389762881255 / 2 ^ 38))
            (js_mul (num 1) (num (1379779297601255 / 2 ^ 46))) = num (25 / 2 ^ 46)"
      by (rule r1)
  qed
  then show ?thesis
    unfolding skipped51_def exec.simps skip51_before_frame fst_conv
    using nz by (simp add: no_player_def js_ne_iff)
qed

lemma is_double_neg_numeral [simp]:
  "numeral n < (2::int) ^ 53 \<Longrightarrow> is_double (- numeral n)"
  using is_double_int[of "- numeral n"] by simp
lemma fl_neg_numeral [simp]:
  "numeral n < (2::int) ^ 53 \<Longrightarrow> fl (- numeral n) = num (- numeral n)"
  by (simp add: fl_exact)
lemma fl_neg_1 [simp]: "fl (- 1) = num (- 1)"
  by (simp add: fl_exact)
lemmas dbl_cmp = double_le_iff double_less_iff double_eq_iff
subsection \<open>Nine seconds into a ten-second video\<close>
lemma q540: "Math_floor (js_div (num 9000) (num (4691249611844267 / 2 ^ 48))) = num 540"
proof -
  have "js_div (num 9000) (num (4691249611844267 / 2 ^ 48))
          = fl (9000 / (4691249611844267 / 2 ^ 48))"
    by (rule js_div_num[OF _ d_m60]) simp_all
  also have "\<dots> = num 540"
    by (rule fl_eval[where e = 9, THEN conjunct1]) (simp_all add: rne_def)
  finally show ?thesis by simp
qed
lemma p540: "js_mul (num 540) (num (4691249611844267 / 2 ^ 48)) = num 9000"
proof -
  have "js_mul (num 540) (num (4691249611844267 / 2 ^ 48))
          = fl (540 * (4691249611844267 / 2 ^ 48))"
    by (rule js_mul_num[OF _ d_m60]) simp_all
  also have "\<dots> = num 9000"
    by (rule fl_eval[where e = 13, THEN conjunct1]) (simp_all add: rne_def)
  finally show ?thesis .
qed
lemma played_video_eq:
  "played_video
     = \<lparr>accumulatedMs = 0, lastStartMs = dbl 1000, running = True,
        appliedFps = DEFAULT_FPS, lastShownTick = 0, tickCount = 0, tickAccumMs = 0,
        lastTickUpdateMs = dbl 1000\<rparr>"
proof -
  let ?s = "\<lparr>accumulatedMs = 0, lastStartMs = dbl 1000, running = True,
      appliedFps = DEFAULT_FPS, lastShownTick = 0, tickCount = 0, tickAccumMs = 0,
      lastTickUpdateMs = dbl 1000\<rparr>"
  have "updateUi (video10 0) (dbl 1000) ?s =
          (if calcEl (video10 0) \<and> js_ne (tickCount ?s) (lastShownTick ?s)
           then ?s\<lparr>lastShownTick := tickCount ?s\<rparr> else ?s)"
    by (rule updateUi_idle) simp_all
  then show ?thesis
    by (simp add: played_video_def loaded60_eq play_def throws_def module_state_def
        video10_def js_ne_iff)
qed
lemma session9_eq:
  "session9 = \<lparr>accumulatedMs = 0, lastStartMs = dbl 1000, running = True,
      appliedFps = DEFAULT_FPS, lastShownTick = num 540, tickCount = num 540,
      tickAccumMs = 0, lastTickUpdateMs = dbl 10000\<rparr>"
proof -
  let ?s = "\<lparr>accumulatedMs = 0, lastStartMs = dbl 1000, running = True,
      appliedFps = DEFAULT_FPS, lastShownTick = 0, tickCount = 0, tickAccumMs = 0,
      lastTickUpdateMs = dbl 1000\<rparr>"
  have nz: "dbl 1000 \<noteq> 0" "dbl 540 \<noteq> 0" by (simp_all add: dbl_eq_0_iff)
  have "updateUi (video10 9) (dbl 10000) ?s =
      ?s\<lparr>lastTickUpdateMs := dbl 10000, tickCount := num 540, tickAccumMs := 0,
         lastShownTick := (if calcEl (video10 9) \<and> js_ne (num 540) (lastShownTick ?s)
                           then num 540 else lastShownTick ?s)\<rparr>"
  proof (rule updateUi_count[where acc = "num 9000"
        and m = "num (4691249611844267 / 2 ^ 48)" and n = "num 540"])
    show "running ?s" by simp
    show "js_add (tickAccumMs ?s)
           (if lastTickUpdateMs ?s = 0 then 0
            else js_sub (Fin (dbl 10000)) (Fin (lastTickUpdateMs ?s))) = num 9000"
      using nz by (simp add: zero_jsnum_def)
    show "js_div (num 1000) (js_max (num 1) (Fin (appliedFps ?s)))
            = num (4691249611844267 / 2 ^ 48)"
      using m60 by simp
    show "js_le (num (4691249611844267 / 2 ^ 48)) (num 9000)"
      by (subst js_le_num[OF d_m60]) simp_all
    show "Math_floor (js_div (num 9000) (num (4691249611844267 / 2 ^ 48))) = num 540"
      by (rule q540)
    show "js_add (tickCount ?s) (num 540) = num 540"
      by (simp add: zero_jsnum_def)
    show "js_sub (num 9000) (js_mul (num 540) (num (4691249611844267 / 2 ^ 48))) = 0"
      by (simp only: p540 js_sub_self)
  qed
  then show ?thesis
    using nz by (simp add: session9_def played_video_eq video10_def js_ne_iff zero_jsnum_def)
qed
lemma session9_elapsed: "elapsed session9 (dbl 10000) = num 9000"
  by (simp add: session9_eq elapsed_def zero_jsnum_def)
lemma skip_back_before_frame:
  "skipBy (video10 9) (num 5) ''seconds'' (- 1) (dbl 10000) (dbl 10000) (dbl 10000)
     (dbl 10000) session9
   = (updateUi (video10 9) (dbl 10000)
        \<lparr>accumulatedMs = 0, lastStartMs = dbl 1000, running = True,
         appliedFps = DEFAULT_FPS, lastShownTick = num (- 1), tickCount = num 240,
         tickAccumMs = 0, lastTickUpdateMs = dbl 10000\<rparr>,
      [GetCurrentTime, GetDuration, SeekTo (num 4) True])"
  by (simp add: skipBy_def session9_eq Let_def elapsed_def currentSec_def durationSecOf_def
      clamp_def js_max_def js_min_def js_ne_iff queries_def seeks_def video10_def
      zero_jsnum_def dbl_cmp DEFAULT_FPS_def)
lemma skip_back_eq:
  "skipBy (video10 9) (num 5) ''seconds'' (- 1) (dbl 10000) (dbl 10000) (dbl 10000)
     (dbl 10000) session9
   = (\<lparr>accumulatedMs = 0, lastStartMs = dbl 1000, running = True,
       appliedFps = DEFAULT_FPS, lastShownTick = num 240, tickCount = num 240,
       tickAccumMs = 0, lastTickUpdateMs = dbl 10000\<rparr>,
      [GetCurrentTime, GetDuration, SeekTo (num 4) True])"
proof -
  let ?s = "\<lparr>accumulatedMs = 0, lastStartMs = dbl 1000, running = True,
         appliedFps = DEFAULT_FPS, lastShownTick = num (- 1), tickCount = num 240,
         tickAccumMs = 0, lastTickUpdateMs = dbl 10000\<rparr>"
  have "updateUi (video10 9) (dbl 10000) ?s =
          (if calcEl (video10 9) \<and> js_ne (tickCount ?s) (lastShownTick ?s)
           then ?s\<lparr>lastShownTick := tickCount ?s\<rparr> else ?s)"
    by (rule updateUi_idle) simp_all
  then show ?thesis
    unfolding skip_back_before_frame
    by (simp add: video10_def js_ne_iff dbl_cmp)
qed
subsection \<open>Sessions that can happen\<close>
lemma reachable_loaded60: "reachable 0 loaded60"
  unfolding loaded60_def by (rule reachable.loaded) simp
lemma reachable_played60: "reachable (dbl 1000) played60"
  using reachable.step[OF reachable_loaded60,
      of "Play no_player (dbl 1000) (dbl 1000) (dbl 1000)"]
  by (simp add: played60_def dbl_cmp)
lemma reachable_session1650: "reachable (dbl 2650) session1650"
  using reachable.step[OF reachable_played60, of "Frame no_player (dbl 2650)"]
  by (simp add: session1650_def dbl_cmp)
lemma reachable_session51: "reachable (dbl 18000) session51"
proof -
  have "reachable (dbl 500) applied51"
    using reachable.step[OF reachable_loaded60,
        of "Apply no_player (Some (num 51)) (dbl 500) (dbl 500)"]
    by (simp add: applied51_def dbl_cmp)
  from reachable.step[OF this, of "Play no_player (dbl 1000) (dbl 1000) (dbl 1000)"]
  have "reachable (dbl 1000) played51" by (simp add: played51_def dbl_cmp)
  from reachable.step[OF this, of "Frame no_player (dbl 18000)"]
  show ?thesis by (simp add: session51_def dbl_cmp)
qed
lemma reachable_played_video: "reachable (dbl 1000) played_video"
  using reachable.step[OF reachable_loaded60,
      of "Play (video10 0) (dbl 1000) (dbl 1000) (dbl 1000)"]
  by (simp add: played_video_def dbl_cmp)
lemma reachable_session9: "reachable (dbl 10000) session9"
  using reachable.step[OF reachable_played_video, of "Frame (video10 9) (dbl 10000)"]
  by (simp add: session9_def dbl_cmp)
lemma reachable_session20: "reachable (dbl 21000) session20"
  using reachable.step[OF reachable_played_video, of "Frame (video10 10) (dbl 21000)"]
  by (simp add: session20_def dbl_cmp)
subsection \<open>A skip too far\<close>
lemma is_double_huge: "is_double (2 ^ 1023)"
proof -
  have "is_double (of_int (2 ^ 52) * 2 powi 971)"
    by (rule is_double_grid) simp_all
  moreover have "real_of_int (2 ^ 52) * 2 powi 971 = 2 ^ 1023"
  proof -
    have "real_of_int (2 ^ 52) * 2 powi 971 = 2 powi 52 * 2 powi 971" by simp
    also have "\<dots> = 2 powi (52 + 971)" by (simp add: power_int_add)
    also have "\<dots> = 2 ^ 1023" by simp
    finally show ?thesis .
  qed
  ultimately show ?thesis by simp
qed
lemma dval_huge: "dval huge = 2 ^ 1023"
  unfolding huge_def by (rule dval_dbl[OF is_double_huge])
lemma huge_pos: "0 < dval huge"
  unfolding dval_huge by (rule zero_less_power) simp
lemma huge_times:
  assumes "2 \<le> c"
  shows "fl (dval huge * c) = PosInf"
proof (rule fl_overflow)
  have "(2::real) ^ 1024 = 2 ^ 1023 * 2" by simp
  also have "\<dots> \<le> 2 ^ 1023 * c" using assms by (intro mult_left_mono) simp_all
  finally show "2 ^ 1024 \<le> dval huge * c" unfolding dval_huge .
qed
lemma overflowed_eq:
  "overflowed = \<lparr>accumulatedMs = PosInf, lastStartMs = 0, running = False,
      appliedFps = DEFAULT_FPS, lastShownTick = PosInf, tickCount = PosInf, tickAccumMs = 0,
      lastTickUpdateMs = 0\<rparr>"
proof -
  note h = huge_pos
  have m: "fl (dval huge * 60) = PosInf" "fl (dval huge * 1000) = PosInf"
    by (rule huge_times, simp)+
  show ?thesis
    using h m
    by (simp add: overflowed_def loaded60_eq module_state_def skipBy_def Let_def elapsed_def
        currentSec_def durationSecOf_def clamp_def js_max_def js_min_def js_ne_iff
        queries_def seeks_def no_player_def zero_jsnum_def DEFAULT_FPS_def updateUi_paused
        dbl_cmp)
qed
lemma lost_eq:
  "lost = \<lparr>accumulatedMs = NaN, lastStartMs = 0, running = False,
      appliedFps = DEFAULT_FPS, lastShownTick = NaN, tickCount = NaN, tickAccumMs = 0,
      lastTickUpdateMs = 0\<rparr>"
  by (simp add: lost_def overflowed_eq skipBy_def Let_def elapsed_def
      currentSec_def durationSecOf_def clamp_def js_max_def js_min_def js_ne_iff
      queries_def seeks_def no_player_def zero_jsnum_def DEFAULT_FPS_def updateUi_paused
      dbl_cmp)
lemma reachable_lost: "reachable (dbl 500) lost"
proof -
  have "reachable (dbl 500) overflowed"
    using reachable.step[OF reachable_loaded60,
        of "Skip no_player (Fin huge) ''seconds'' 1 (dbl 500) (dbl 500) (dbl 500) (dbl 500)"]
    by (simp add: overflowed_def dbl_cmp)
  from reachable.step[OF this,
      of "Skip no_player (num 1) ''seconds'' (- 1) (dbl 500) (dbl 500) (dbl 500) (dbl 500)"]
  show ?thesis by (simp add: lost_def dbl_cmp)
qed

subsection \<open>The wall clock is never negative\<close>
lemma not_neg_iff: "\<not> js_lt x 0 \<longleftrightarrow> js_le 0 x \<or> x = NaN"
  by (cases x) (auto simp: zero_jsnum_def)
lemma js_max_0_not_neg: "\<not> js_lt (js_max 0 y) 0"
  by (cases y) (auto simp: js_max_def zero_jsnum_def)
lemma js_add_not_neg:
  assumes "\<not> js_lt x 0" and "\<not> js_lt y 0"
  shows "\<not> js_lt (js_add x y) 0"
proof (cases x)
  case (Fin a)
  note x = this
  show ?thesis
  proof (cases y)
    case (Fin b)
    have "0 \<le> dval a + dval b"
      using assms x Fin by (simp add: zero_jsnum_def double_less_iff)
    then show ?thesis using x Fin fl_nonneg by simp
  qed (use assms x in \<open>simp_all add: zero_jsnum_def\<close>)
next
  case PosInf
  then show ?thesis using assms by (cases y) (simp_all add: zero_jsnum_def)
next
  case NegInf
  then show ?thesis using assms by (simp add: zero_jsnum_def)
next
  case NaN
  then show ?thesis by (simp add: zero_jsnum_def)
qed
lemma js_sub_not_neg:
  assumes "b \<le> a"
  shows "\<not> js_lt (js_sub (Fin a) (Fin b)) 0"
proof -
  have "0 \<le> dval a - dval b" using assms by (simp add: double_le_iff)
  then show ?thesis using fl_nonneg by simp
qed
lemma skipBy_running [simp]:
  "running (fst (skipBy e amount unit direction t1 t2 t3 t4 s)) = running s"
  by (simp add: skipBy_def Let_def updateUi_frame split: option.splits)
lemma skipBy_lastStartMs [simp]:
  "lastStartMs (fst (skipBy e amount unit direction t1 t2 t3 t4 s)) = lastStartMs s"
  by (simp add: skipBy_def Let_def updateUi_frame split: option.splits)
lemma skipBy_appliedFps [simp]:
  "appliedFps (fst (skipBy e amount unit direction t1 t2 t3 t4 s)) = appliedFps s"
  by (simp add: skipBy_def Let_def updateUi_frame split: option.splits)
lemma skipBy_not_neg:
  assumes "\<not> js_lt (accumulatedMs s) 0"
  shows "\<not> js_lt (accumulatedMs (fst (skipBy e amount unit direction t1 t2 t3 t4 s))) 0"
  using assms
  by (simp add: skipBy_def Let_def updateUi_frame clamp_def js_max_0_not_neg
      split: option.splits)
lemma commit_frame:
  "running (snd (commitAppliedFps e fpsInput t1 t2 s)) = running s"
  "lastStartMs (snd (commitAppliedFps e fpsInput t1 t2 s)) = lastStartMs s"
  "accumulatedMs (snd (commitAppliedFps e fpsInput t1 t2 s)) = accumulatedMs s"
  by (simp_all add: commitAppliedFps_def updateUi_frame split: option.splits)
lemma exec_inv:
  assumes acc: "\<not> js_lt (accumulatedMs s) 0"
    and start: "running s \<longrightarrow> lastStartMs s \<le> t"
    and order: "sorted (t # reads ev)"
  shows "\<not> js_lt (accumulatedMs (exec ev s)) 0 \<and>
         (running (exec ev s) \<longrightarrow> lastStartMs (exec ev s) \<le> last (t # reads ev))"
proof (cases ev)
  case (Frame e now)
  then show ?thesis using assms by (auto simp: updateUi_frame)
next
  case (Play e t1 t2 t3)
  then show ?thesis using assms by (auto simp: play_def Let_def updateUi_frame)
next
  case (Stop e t1 t2)
  have "\<not> js_lt (js_add (accumulatedMs s) (js_sub (Fin t1) (Fin (lastStartMs s)))) 0"
    if "running s"
  proof -
    have "lastStartMs s \<le> t1" using that start order Stop by auto
    then show ?thesis using acc js_add_not_neg js_sub_not_neg by blast
  qed
  then show ?thesis using Stop assms by (auto simp: stop_def Let_def updateUi_frame)
next
  case (Reset e t1 t2 t3)
  then show ?thesis
    using assms by (auto simp: reset_def Let_def updateUi_frame zero_jsnum_def)
next
  case (Apply e fpsInput t1 t2)
  then show ?thesis using assms by (auto simp: commit_frame)
next
  case (Skip e amount unit direction t1 t2 t3 t4)
  then show ?thesis using assms skipBy_not_neg by auto
qed
lemma reachable_inv:
  assumes "reachable t s"
  shows "\<not> js_lt (accumulatedMs s) 0 \<and> (running s \<longrightarrow> lastStartMs s \<le> t)"
  using assms
proof (induction rule: reachable.induct)
  case (loaded now e fps0)
  then show ?case
    by (simp add: domContentLoaded_def updateUi_frame module_state_def zero_jsnum_def
        split: option.splits)
next
  case (step t s ev)
  then show ?case using exec_inv[of s t ev] by blast
qed
subsection \<open>The tick step\<close>
subsection \<open>The accumulator after a frame\<close>
text \<open>
  C5 fails in the script. At the default 60 ticks a second, \<open>play()\<close> at 1000 ms and one
  frame at 2650 ms leave \<open>tickAccumMs = -2^-42\<close> (about \<open>-2.27e-13\<close>), below 0. At 51
  ticks a second, \<open>play()\<close> at 1000 ms and one frame at 18000 ms leave
  \<open>tickAccumMs = 19.60784313725526\<close>, not below \<open>msPerTick = 1000 / 51 =
  19.607843137254903\<close>. Both states are reached by the handlers alone.
\<close>
theorem tickAccum_leaves_range:
  "reachable (dbl 2650) session1650 \<and>
   tickAccumMs session1650 = num (- 1 / 2 ^ 42) \<and>
   js_lt (tickAccumMs session1650) 0 \<and>
   reachable (dbl 18000) session51 \<and>
   appliedFps session51 = dbl 51 \<and>
   js_div (num 1000) (Fin (appliedFps session51)) = num (1379779297601255 / 2 ^ 46) \<and>
   tickAccumMs session51 = num (5389762881255 / 2 ^ 38) \<and>
   js_le (js_div (num 1000) (Fin (appliedFps session51))) (tickAccumMs session51)"
proof -
  have neg: "js_lt (num (- 1 / 2 ^ 42)) 0"
    using d_r99 by (simp add: zero_jsnum_def dbl_cmp)
  have "js_max (num 1) (num 51) = num 51" by (simp add: js_max_num)
  then have m: "js_div (num 1000) (num 51) = num (1379779297601255 / 2 ^ 46)"
    using m51 by simp
  show ?thesis
    unfolding session1650_eq session51_eq[symmetric]
    using reachable_session1650 reachable_session51 neg m over51
    unfolding session1650_eq session51_eq by simp
qed
subsection \<open>What a skip leaves alone\<close>
text \<open>
  C10 fails in the script. In the state above, at 51 ticks a second with the accumulator at
  or over \<open>msPerTick\<close>, \<open>skipBy(1, 'seconds', +1)\<close> at the instant of the last frame
  changes \<open>tickAccumMs\<close> from \<open>19.60784313725526\<close> to \<open>25 * 2^-46\<close> (about
  \<open>3.55e-13\<close>): its closing \<open>updateUi()\<close> counts a tick, so \<open>tickCount\<close> goes from 866 to
  918, one more than the 51 ticks of the skip.
\<close>
theorem skipBy_changes_accumulator:
  "reachable (dbl 18000) session51 \<and>
   isFinite (num 1) = Some (dbl 1) \<and> 0 \<le> dbl 1 \<and>
   tickCount session51 = num 866 \<and>
   tickAccumMs session51 = num (5389762881255 / 2 ^ 38) \<and>
   (let s' = fst (skipBy no_player (num 1) ''seconds'' 1
                    (dbl 18000) (dbl 18000) (dbl 18000) (dbl 18000) session51)
    in appliedFps s' = appliedFps session51 \<and>
       tickAccumMs s' = num (25 / 2 ^ 46) \<and>
       js_ne (tickAccumMs s') (tickAccumMs session51) \<and>
       tickCount s' = num 918)"
proof -
  have ne: "js_ne (num (25 / 2 ^ 46)) (num (5389762881255 / 2 ^ 38))"
    unfolding js_ne_iff using dbl_eq_iff[OF d_r1 d_r866] by simp
  have s: "fst (skipBy no_player (num 1) ''seconds'' 1
                  (dbl 18000) (dbl 18000) (dbl 18000) (dbl 18000) session51)
           = \<lparr>accumulatedMs = num 1000, lastStartMs = dbl 1000, running = True,
               appliedFps = dbl 51, lastShownTick = num 918, tickCount = num 918,
               tickAccumMs = num (25 / 2 ^ 46), lastTickUpdateMs = dbl 18000\<rparr>"
    using skipped51_eq by (simp add: skipped51_def)
  have one: "0 \<le> dbl 1" by (simp add: dbl_cmp)
  show ?thesis
    unfolding s Let_def
    using reachable_session51 ne one unfolding session51_eq by simp
qed
subsection \<open>A skip backwards while the clock runs\<close>
text \<open>
  C3 fails in the script. Nine seconds into a ten-second video (\<open>play()\<close> at 1000 ms, a
  frame at 10000 ms, the player at 9 s), \<open>skipBy(5, 'seconds', -1)\<close> seeks the player to
  4 s and takes 300 ticks off \<open>tickCount\<close> (540 to 240), but the wall clock stays at
  9000 ms: \<open>accumulatedMs + jumpMs = -5000\<close> is clamped at 0 on its own, without the
  running segment \<open>now - lastStartMs = 9000\<close>, so the two clocks are not moved by the same
  \<open>actualJumpedSec\<close>.
\<close>
theorem skipBy_backward_wall_clock:
  "reachable (dbl 10000) session9 \<and> running session9 \<and>
   tickCount session9 = num 540 \<and> elapsed session9 (dbl 10000) = num 9000 \<and>
   (let (s', calls) = skipBy (video10 9) (num 5) ''seconds'' (- 1)
                        (dbl 10000) (dbl 10000) (dbl 10000) (dbl 10000) session9
    in calls = [GetCurrentTime, GetDuration, SeekTo (num 4) True] \<and>
       tickCount s' = num 240 \<and> accumulatedMs s' = 0 \<and>
       elapsed s' (dbl 10000) = num 9000)"
proof -
  have e9: "elapsed session9 (dbl 10000) = num 9000" by (rule session9_elapsed)
  show ?thesis
    unfolding skip_back_eq e9
    using reachable_session9
    by (simp add: session9_eq elapsed_def zero_jsnum_def)
qed

end
